theory Spec2Isabelle
  imports Complex_Main "HOL-Library.Multiset"
begin

section \<open>Numbers and errors\<close>

text \<open>
  The program is \<^verbatim>\<open>src/tetris.ts\<close>. A JavaScript \<^verbatim>\<open>number\<close> is modelled as a
  rational: the coordinates the game computes are small multiples of 1/2, on which IEEE
  double arithmetic is exact, and a random number is only multiplied by a small integer
  and truncated. An exception is a value: \<open>Inl e\<close> of a sum, returned together with
  the state reached when it was thrown.
\<close>

datatype error =
    Assertion string  \<comment> \<open>\<^verbatim>\<open>assert\<close> throws its message\<close>
  | TypeError         \<comment> \<open>a property of \<^verbatim>\<open>undefined\<close> is read or written\<close>
  | NotANumber        \<comment> \<open>a NaN, which the rationals cannot hold\<close>

definition trunc :: "rat \<Rightarrow> int" where
  "trunc r = (if r < 0 then \<lceil>r\<rceil> else \<lfloor>r\<rfloor>)"

definition toInt32 :: "rat \<Rightarrow> int" where
  "toInt32 r = (let m = trunc r mod 2 ^ 32 in if m \<ge> 2 ^ 31 then m - 2 ^ 32 else m)"

text \<open>\<^verbatim>\<open>x | 0\<close>: the operand converted to a signed 32-bit integer.\<close>

definition or0 :: "rat \<Rightarrow> rat" where
  "or0 r = of_int (toInt32 r)"

definition isInt :: "rat \<Rightarrow> bool" where
  "isInt x = (x = or0 x)"

text \<open>
  \<^verbatim>\<open>xs.reduce((x, y) => Math.max(x, y), min || xs[0])\<close>, always called without
  \<^verbatim>\<open>min\<close>. On an empty array the start value is \<^verbatim>\<open>undefined\<close>: \<open>None\<close>.
\<close>

definition arrayMax :: "rat list \<Rightarrow> rat option" where
  "arrayMax xs = (case xs of [] \<Rightarrow> None | x0 # _ \<Rightarrow> Some (fold (\<lambda>y x. max x y) xs x0))"

section \<open>Geometry\<close>

record Point =
  Point_x :: rat
  Point_y :: rat

definition NUM_BLOCKS :: nat where
  "NUM_BLOCKS = 4"

text \<open>\<^verbatim>\<open>Point.rotate(ccw, center)\<close>; the point rotated is the last argument.\<close>

definition Point_rotate :: "bool \<Rightarrow> Point \<Rightarrow> Point \<Rightarrow> Point" where
  "Point_rotate ccw center this =
     (let xFactor = (if ccw then - 1 else 1);
          yFactor = (if ccw then 1 else - 1)
      in \<lparr>Point_x = Point_x center + xFactor * (Point_y this - Point_y center),
          Point_y = Point_y center + yFactor * (Point_x this - Point_x center)\<rparr>)"

definition POINT_ZERO :: Point where
  "POINT_ZERO = \<lparr>Point_x = 0, Point_y = 0\<rparr>"

section \<open>Pieces and the shape catalog\<close>

record Piece =
  blocks :: "Point list"
  centroid :: Point
  index :: int
  position :: Point

text \<open>The constructor of \<^verbatim>\<open>Piece\<close>, with its four assertions in order.\<close>

definition Piece_new :: "Point list \<Rightarrow> Point \<Rightarrow> int \<Rightarrow> Point \<Rightarrow> error + Piece" where
  "Piece_new bs c i pos =
     (if length bs \<noteq> NUM_BLOCKS then Inl (Assertion ''piece must have 4 blocks'')
      else if \<not> (isInt (Point_x c * 2) \<and> isInt (Point_y c * 2))
        then Inl (Assertion ''centroid should be a multiple of 1/2'')
      else if \<not> isInt (of_int i) then Inl (Assertion ''index should be an integer'')
      else if \<not> i > 0 then Inl (Assertion ''index should be greater than 0'')
      else Inr \<lparr>blocks = bs, centroid = c, index = i, position = pos\<rparr>)"

definition Piece_clone :: "Piece \<Rightarrow> error + Piece" where
  "Piece_clone p = Piece_new (blocks p) (centroid p) (index p) (position p)"

text \<open>\<^verbatim>\<open>Piece.rotate(ccw)\<close>: every block is rotated about the centroid.\<close>

definition Piece_rotate :: "bool \<Rightarrow> Piece \<Rightarrow> Piece" where
  "Piece_rotate ccw p = p\<lparr>blocks := map (Point_rotate ccw (centroid p)) (blocks p)\<rparr>"

definition PIECE_STRINGS :: "string list" where
  "PIECE_STRINGS =
     [''#   O:  O:  #   '',
      '' #   O  ##      '',
      ''#   O   ##      '',
      ''OO  OO          '',
      '' ## #O          '',
      ''##   O#         '',
      ''#O#  #          '']"

text \<open>
  One round of the loop of \<^verbatim>\<open>pieceFromString\<close>, on the state
  (blocks, centroid sums, centroid count).
\<close>

definition scan_cell :: "string \<Rightarrow> nat \<Rightarrow> Point list \<times> (rat \<times> rat) \<times> nat
    \<Rightarrow> Point list \<times> (rat \<times> rat) \<times> nat" where
  "scan_cell str i st =
     (case st of (bs, (c0, c1), centroid_count) \<Rightarrow>
        let c = str ! i;
            x = of_nat (i mod NUM_BLOCKS);
            y = or0 (of_nat i / of_nat NUM_BLOCKS);
            bs' = (if c = CHR ''#'' \<or> c = CHR ''O''
                   then bs @ [\<lparr>Point_x = x, Point_y = y\<rparr>] else bs)
        in if c = CHR ''O'' \<or> c = CHR '':''
           then (bs', (c0 + x, c1 + y), centroid_count + 1)
           else (bs', (c0, c1), centroid_count))"

definition pieceFromString :: "string \<Rightarrow> int \<Rightarrow> error + Piece" where
  "pieceFromString str i =
     (if length str \<noteq> NUM_BLOCKS * NUM_BLOCKS
        then Inl (Assertion ''piece string should have length 16'')
      else case fold (scan_cell str) [0 ..< NUM_BLOCKS * NUM_BLOCKS] ([], (0, 0), 0) of
        (bs, (c0, c1), centroid_count) \<Rightarrow>
          if length bs \<noteq> NUM_BLOCKS
            then Inl (Assertion ''piece string should have 4 blocks'')
          else if \<not> centroid_count > 0
            then Inl (Assertion ''piece string should have at least one centroid'')
          else Piece_new bs \<lparr>Point_x = c0 / of_nat centroid_count,
                              Point_y = c1 / of_nat centroid_count\<rparr> i POINT_ZERO)"

text \<open>
  \<^verbatim>\<open>PIECE_STRINGS.map((str, i) => pieceFromString(str, i + 1))\<close>: the first
  exception ends the map.
\<close>

fun load_pieces :: "string list \<Rightarrow> nat \<Rightarrow> error + Piece list" where
  "load_pieces [] i = Inr []"
| "load_pieces (str # strs) i =
     (case pieceFromString str (int i + 1) of
        Inl e \<Rightarrow> Inl e
      | Inr p \<Rightarrow> (case load_pieces strs (Suc i) of
                   Inl e \<Rightarrow> Inl e
                 | Inr ps \<Rightarrow> Inr (p # ps)))"

text \<open>
  The constant \<^verbatim>\<open>PIECES\<close>. Were the map to throw, the script would stop before any
  game state exists; \<open>PIECES_loaded\<close> below shows that it does not.
\<close>

definition PIECES :: "Piece list" where
  "PIECES = (case load_pieces PIECE_STRINGS 0 of Inl e \<Rightarrow> [] | Inr ps \<Rightarrow> ps)"

section \<open>The grid\<close>

text \<open>
  \<^verbatim>\<open>grid\<close> is an array of rows, each an array of numbers. The outer array is only
  read by index and changed by \<^verbatim>\<open>push\<close>, \<^verbatim>\<open>splice\<close> and \<^verbatim>\<open>unshift\<close>:
  a list. A row is also written by index, at a number that no check has compared with
  the row's length, so a row is modelled as JavaScript stores it: its \<^verbatim>\<open>length\<close> and
  its properties keyed by number. A key that holds no property reads \<^verbatim>\<open>undefined\<close>:
  \<open>None\<close>. Every row is an array of its own (no two rows of the grid are the same
  object), so rows are values.
\<close>

record Row =
  len :: nat
  props :: "rat \<Rightarrow> int option"

text \<open>The array index a number denotes: an integer from 0 to \<open>2^32 - 2\<close>.\<close>

definition array_index :: "rat \<Rightarrow> nat option" where
  "array_index k =
     (if 0 \<le> k \<and> k < 2 ^ 32 - 1 \<and> k = of_int \<lfloor>k\<rfloor> then Some (nat \<lfloor>k\<rfloor>) else None)"

text \<open>\<^verbatim>\<open>row[k] = v\<close>: the property is set, and the length grows to cover an index.\<close>

definition row_set :: "Row \<Rightarrow> rat \<Rightarrow> int \<Rightarrow> Row" where
  "row_set r k v =
     \<lparr>len = (case array_index k of None \<Rightarrow> len r | Some n \<Rightarrow> max (len r) (Suc n)),
      props = (props r)(k \<mapsto> v)\<rparr>"

definition row_push :: "Row \<Rightarrow> int \<Rightarrow> Row" where
  "row_push r v = \<lparr>len = Suc (len r), props = (props r)(of_nat (len r) \<mapsto> v)\<rparr>"

text \<open>
  \<^verbatim>\<open>row.every(x => x !== 0)\<close>: the callback runs at each index below the length
  that holds a property.
\<close>

definition every_nonzero :: "Row \<Rightarrow> bool" where
  "every_nonzero r = list_all (\<lambda>i. props r (of_nat i) \<noteq> Some 0) [0 ..< len r]"

text \<open>\<^verbatim>\<open>grid[k]\<close>: the row at an index below the length, \<^verbatim>\<open>undefined\<close> elsewhere.\<close>

definition grid_row :: "Row list \<Rightarrow> rat \<Rightarrow> Row option" where
  "grid_row g k =
     (case array_index k of
        None \<Rightarrow> None
      | Some n \<Rightarrow> if n < length g then Some (g ! n) else None)"

definition GRID_WIDTH :: nat where
  "GRID_WIDTH = 10"

definition GRID_HEIGHT :: nat where
  "GRID_HEIGHT = 20"

text \<open>A row of \<^verbatim>\<open>GRID_WIDTH\<close> zeros, pushed one by one onto an empty array.\<close>

definition newRow :: Row where
  "newRow = ((\<lambda>r. row_push r 0) ^^ GRID_WIDTH) \<lparr>len = 0, props = Map.empty\<rparr>"

definition initial_grid :: "Row list" where
  "initial_grid = replicate GRID_HEIGHT newRow"

section \<open>Operations of a piece\<close>

text \<open>
  A method of \<^verbatim>\<open>Piece\<close> reads and writes the receiver and the global grid. Its model
  takes both and returns the result, or the exception, with the grid and the piece as
  the call leaves them.
\<close>

type_synonym 'a outcome = "(error + 'a) \<times> Row list \<times> Piece"

fun fitsAt_blocks :: "Row list \<Rightarrow> Point list \<Rightarrow> rat \<Rightarrow> rat \<Rightarrow> error + bool" where
  "fitsAt_blocks g [] x y = Inr True"
| "fitsAt_blocks g (pt # pts) x y =
     (let px = Point_x pt + x;
          py = Point_y pt + y
      in if px < 0 \<or> px \<ge> of_nat GRID_WIDTH \<or> py \<ge> of_nat GRID_HEIGHT then Inr False
         else if py < 0 then fitsAt_blocks g pts x y
         else (case grid_row g py of
                 None \<Rightarrow> Inl TypeError
               | Some row \<Rightarrow>
                   if props row px \<noteq> Some 0 then Inr False
                   else fitsAt_blocks g pts x y))"

definition fitsAt :: "Row list \<Rightarrow> Piece \<Rightarrow> rat \<Rightarrow> rat \<Rightarrow> bool outcome" where
  "fitsAt g p x y = (fitsAt_blocks g (blocks p) x y, g, p)"

text \<open>
  \<^verbatim>\<open>place\<close>: the blocks are written in order; a block whose row does not exist
  throws, after the writes of the blocks before it.
\<close>

fun place_blocks :: "Row list \<Rightarrow> Point list \<Rightarrow> Point \<Rightarrow> int \<Rightarrow> (error + unit) \<times> Row list" where
  "place_blocks g [] pos i = (Inr (), g)"
| "place_blocks g (pt # pts) pos i =
     (case grid_row g (Point_y pt + Point_y pos) of
        None \<Rightarrow> (Inl TypeError, g)
      | Some row \<Rightarrow>
          place_blocks
            (g[nat \<lfloor>Point_y pt + Point_y pos\<rfloor> := row_set row (Point_x pt + Point_x pos) i])
            pts pos i)"

definition place :: "Row list \<Rightarrow> Piece \<Rightarrow> unit outcome" where
  "place g p = (case place_blocks g (blocks p) (position p) (index p) of (r, g') \<Rightarrow> (r, g', p))"

definition moveDown :: "Row list \<Rightarrow> Piece \<Rightarrow> bool outcome" where
  "moveDown g p =
     (case fitsAt g p (Point_x (position p)) (Point_y (position p) + 1) of
        (Inl e, g', p') \<Rightarrow> (Inl e, g', p')
      | (Inr True, g', p') \<Rightarrow>
          (Inr False, g', p'\<lparr>position := (position p')\<lparr>Point_y := Point_y (position p') + 1\<rparr>\<rparr>)
      | (Inr False, g', p') \<Rightarrow>
          (case place g' p' of
             (Inl e, g'', p'') \<Rightarrow> (Inl e, g'', p'')
           | (Inr u, g'', p'') \<Rightarrow> (Inr True, g'', p'')))"

definition moveHoriz :: "Row list \<Rightarrow> Piece \<Rightarrow> rat \<Rightarrow> bool outcome" where
  "moveHoriz g p dx =
     (if \<not> isInt dx then (Inl (Assertion ''dx should be a number''), g, p)
      else case fitsAt g p (Point_x (position p) + dx) (Point_y (position p)) of
        (Inl e, g', p') \<Rightarrow> (Inl e, g', p')
      | (Inr True, g', p') \<Rightarrow>
          (Inr True, g', p'\<lparr>position := (position p')\<lparr>Point_x := Point_x (position p') + dx\<rparr>\<rparr>)
      | (Inr False, g', p') \<Rightarrow> (Inr False, g', p'))"

section \<open>Kicks\<close>

definition MAX_KICK :: int where
  "MAX_KICK = 3"

definition KICK_RANGE :: "rat list" where
  "KICK_RANGE = map of_int [- MAX_KICK .. MAX_KICK]"

definition sqmag :: "Point \<Rightarrow> rat" where
  "sqmag a = Point_x a * Point_x a + Point_y a * Point_y a"

text \<open>
  The rows of offsets, one per \<open>dy\<close>, concatenated and sorted by squared length.
  \<^verbatim>\<open>Array.prototype.sort\<close> is stable (ECMAScript 2019), as \<open>sort_key\<close> is: offsets of
  equal length keep the order of the scan.
\<close>

definition KICK_DELTAS :: "Point list" where
  "KICK_DELTAS =
     sort_key sqmag
       (foldl (\<lambda>a b. a @ b) []
          (map (\<lambda>dy. map (\<lambda>dx. \<lparr>Point_x = dx, Point_y = dy\<rparr>) KICK_RANGE) KICK_RANGE))"

text \<open>
  The loop of \<^verbatim>\<open>kickRotate\<close> over the offsets that are left: \<open>Inr True\<close> when it
  returns from inside, \<open>Inr False\<close> when it runs to its end.
\<close>

fun kick_loop :: "Row list \<Rightarrow> Piece \<Rightarrow> Point list \<Rightarrow> bool outcome" where
  "kick_loop g p [] = (Inr False, g, p)"
| "kick_loop g p (d # ds) =
     (case fitsAt g p (Point_x (position p) + Point_x d) (Point_y (position p) + Point_y d) of
        (Inl e, g', p') \<Rightarrow> (Inl e, g', p')
      | (Inr True, g', p') \<Rightarrow>
          (Inr True, g',
           p'\<lparr>position := \<lparr>Point_x = Point_x (position p') + Point_x d,
                            Point_y = Point_y (position p') + Point_y d\<rparr>\<rparr>)
      | (Inr False, g', p') \<Rightarrow> kick_loop g' p' ds)"

definition kickRotate :: "Row list \<Rightarrow> Piece \<Rightarrow> bool \<Rightarrow> bool outcome" where
  "kickRotate g p ccw =
     (case kick_loop g (Piece_rotate ccw p) KICK_DELTAS of
        (Inr False, g', p') \<Rightarrow> (Inr False, g', Piece_rotate (\<not> ccw) p')
      | r \<Rightarrow> r)"

section \<open>The bag\<close>

text \<open>
  \<^verbatim>\<open>Math.random()\<close> returns a number in \<open>[0, 1)\<close> that the program does not
  control. The model reads it from a sequence of rationals given in advance, of which the
  fractional part is taken: every sequence is admissible, and every sequence of numbers in
  \<open>[0, 1)\<close> is the output of one.
\<close>

type_synonym chance = "nat \<Rightarrow> rat"

definition Math_random :: "chance \<Rightarrow> rat \<times> chance" where
  "Math_random r = (frac (r 0), \<lambda>n. r (Suc n))"

record Bag =
  Bag_bag :: "Piece list"
  Bag_index :: nat

text \<open>
  The loop of \<^verbatim>\<open>shuffle\<close> at \<open>i = Suc k\<close>, going down to 1. The destructuring
  assignment reads both elements, then writes \<open>bag[i]\<close>, then \<open>bag[j]\<close>.
\<close>

fun shuffle_loop :: "nat \<Rightarrow> Piece list \<Rightarrow> chance \<Rightarrow> Piece list \<times> chance" where
  "shuffle_loop 0 b r = (b, r)"
| "shuffle_loop (Suc k) b r =
     (case Math_random r of (u, r') \<Rightarrow>
        let i = Suc k;
            j = nat (toInt32 (u * (of_nat i + 1)))
        in shuffle_loop k (b[i := b ! j, j := b ! i]) r')"

definition shuffle :: "Bag \<Rightarrow> chance \<Rightarrow> Bag \<times> chance" where
  "shuffle bg r =
     (case shuffle_loop (length (Bag_bag bg) - 1) (Bag_bag bg) r of
        (b, r') \<Rightarrow> (\<lparr>Bag_bag = b, Bag_index = 0\<rparr>, r'))"

text \<open>\<^verbatim>\<open>PIECES.map(p => p.clone())\<close>: the first exception ends the map.\<close>

fun clone_all :: "Piece list \<Rightarrow> error + Piece list" where
  "clone_all [] = Inr []"
| "clone_all (p # ps) =
     (case Piece_clone p of
        Inl e \<Rightarrow> Inl e
      | Inr q \<Rightarrow> (case clone_all ps of Inl e \<Rightarrow> Inl e | Inr qs \<Rightarrow> Inr (q # qs)))"

text \<open>The constructor of \<^verbatim>\<open>Bag\<close>; the index has no value before the shuffle sets it.\<close>

definition Bag_new :: "chance \<Rightarrow> error + Bag \<times> chance" where
  "Bag_new r =
     (case clone_all PIECES of
        Inl e \<Rightarrow> Inl e
      | Inr ps \<Rightarrow> Inr (shuffle \<lparr>Bag_bag = ps, Bag_index = 0\<rparr> r))"

text \<open>\<^verbatim>\<open>next()\<close>; \<open>None\<close> is \<^verbatim>\<open>undefined\<close>, read beyond the end of the bag.\<close>

definition Bag_next :: "Bag \<Rightarrow> chance \<Rightarrow> Piece option \<times> Bag \<times> chance" where
  "Bag_next bg r =
     (let ret = (if Bag_index bg < length (Bag_bag bg)
                 then Some (Bag_bag bg ! Bag_index bg) else None);
          bg1 = bg\<lparr>Bag_index := Bag_index bg + 1\<rparr>
      in if Bag_index bg1 \<ge> length (Bag_bag bg1)
         then (case shuffle bg1 r of (bg2, r') \<Rightarrow> (ret, bg2, r'))
         else (ret, bg1, r))"

text \<open>\<open>n\<close> calls of \<^verbatim>\<open>next()\<close> in a row, with what each returned.\<close>

fun draw :: "nat \<Rightarrow> Bag \<times> chance \<Rightarrow> Piece option list \<times> Bag \<times> chance" where
  "draw 0 s = ([], s)"
| "draw (Suc n) s =
     (case Bag_next (fst s) (snd s) of
        (ret, s') \<Rightarrow> (case draw n s' of (rets, s'') \<Rightarrow> (ret # rets, s'')))"

section \<open>The session\<close>

text \<open>The global variables of the script that the game logic reads and writes.\<close>

record game =
  grid :: "Row list"
  currentPiece :: "Piece option"
  bag :: Bag
  rnd :: chance

text \<open>
  \<^verbatim>\<open>spawn\<close>. \<^verbatim>\<open>currentPiece\<close> is assigned before the position is computed.
  \<open>NotANumber\<close> stands for the NaN position of a piece without blocks, which the
  constructor's assertion in \<^verbatim>\<open>clone\<close> excludes.
\<close>

definition spawn :: "game \<Rightarrow> (error + unit) \<times> game" where
  "spawn s =
     (if currentPiece s \<noteq> None
        then (Inl (Assertion ''spawning while current piece is not null''), s)
      else case Bag_next (bag s) (rnd s) of
        (ret, bg, r) \<Rightarrow>
          let s1 = s\<lparr>bag := bg, rnd := r\<rparr>
          in case ret of
               None \<Rightarrow> (Inl TypeError, s1)
             | Some q \<Rightarrow>
                 (case Piece_clone q of
                    Inl e \<Rightarrow> (Inl e, s1)
                  | Inr p \<Rightarrow>
                      (case (arrayMax (map Point_x (blocks p)),
                             arrayMax (map Point_y (blocks p))) of
                         (Some mx, Some my) \<Rightarrow>
                           (Inr (),
                            s1\<lparr>currentPiece := Some (p\<lparr>position :=
                                 \<lparr>Point_x = or0 ((of_nat GRID_WIDTH - mx) / 2),
                                  Point_y = - 1 - my\<rparr>\<rparr>)\<rparr>)
                       | _ \<Rightarrow> (Inl NotANumber, s1\<lparr>currentPiece := Some p\<rparr>))))"

text \<open>
  The first loop of \<^verbatim>\<open>clearLines\<close>, with the rows \<open>y < n\<close> still to visit:
  \<^verbatim>\<open>grid.splice(y, 1)\<close> removes a full row; a row that does not exist throws.
\<close>

fun clear_loop :: "nat \<Rightarrow> Row list \<Rightarrow> (error + unit) \<times> Row list" where
  "clear_loop 0 g = (Inr (), g)"
| "clear_loop (Suc y) g =
     (if y < length g
      then (if every_nonzero (g ! y) then clear_loop y (take y g @ drop (Suc y) g)
            else clear_loop y g)
      else (Inl TypeError, g))"

text \<open>
  The second loop adds rows at the top until the length is \<^verbatim>\<open>GRID_HEIGHT\<close>; on a
  longer grid it never ends: \<open>None\<close>.
\<close>

partial_function (option) refill :: "Row list \<Rightarrow> Row list option" where
  "refill g = (if length g \<noteq> GRID_HEIGHT then refill (newRow # g) else Some g)"

declare refill.simps [code]

definition clearLines :: "Row list \<Rightarrow> ((error + unit) \<times> Row list) option" where
  "clearLines g =
     (case clear_loop GRID_HEIGHT g of
        (Inl e, g') \<Rightarrow> Some (Inl e, g')
      | (Inr u, g') \<Rightarrow> (case refill g' of None \<Rightarrow> None | Some g'' \<Rightarrow> Some (Inr (), g'')))"

text \<open>
  \<^verbatim>\<open>movePieceDown\<close>, the step of the timer. Its last statement \<^verbatim>\<open>render()\<close>
  writes the colours of the table cells \<^verbatim>\<open>gridEls\<close> and no variable of the game: it
  is left out.
\<close>

definition movePieceDown :: "game \<Rightarrow> ((error + unit) \<times> game) option" where
  "movePieceDown s =
     (case currentPiece s of
        None \<Rightarrow> Some (spawn s)
      | Some p \<Rightarrow>
          (case moveDown (grid s) p of
             (Inl e, g', p') \<Rightarrow> Some (Inl e, s\<lparr>grid := g', currentPiece := Some p'\<rparr>)
           | (Inr True, g', p') \<Rightarrow> Some (Inr (), s\<lparr>grid := g', currentPiece := None\<rparr>)
           | (Inr False, g', p') \<Rightarrow>
               (case clearLines g' of
                  None \<Rightarrow> None
                | Some (r, g'') \<Rightarrow> Some (r, s\<lparr>grid := g'', currentPiece := Some p'\<rparr>))))"

text \<open>
  The timer of \<^verbatim>\<open>init\<close>: \<^verbatim>\<open>movePieceDown\<close> runs once per interval, and the first
  exception is caught and stops the timer (\<^verbatim>\<open>clearInterval\<close>). \<open>ticks n\<close> is the
  session after at most \<open>n\<close> intervals.
\<close>

fun ticks :: "nat \<Rightarrow> game \<Rightarrow> ((error + unit) \<times> game) option" where
  "ticks 0 s = Some (Inr (), s)"
| "ticks (Suc n) s =
     (case movePieceDown s of
        None \<Rightarrow> None
      | Some (Inl e, s') \<Rightarrow> Some (Inl e, s')
      | Some (Inr u, s') \<Rightarrow> ticks n s')"

section \<open>Notions of the specification\<close>

text \<open>
  \<^verbatim>\<open>grid[r][c]\<close> as a value: the content of the cell in row \<open>r\<close> and column \<open>c\<close>,
  \<open>None\<close> where the grid has no such row or the row no such property. A cell is
  empty when it holds 0.
\<close>

definition cell :: "Row list \<Rightarrow> rat \<Rightarrow> rat \<Rightarrow> int option" where
  "cell g r c = (case grid_row g r of None \<Rightarrow> None | Some row \<Rightarrow> props row c)"

definition integral :: "Point \<Rightarrow> bool" where
  "integral b \<longleftrightarrow> Point_x b \<in> \<int> \<and> Point_y b \<in> \<int>"

text \<open>What \<^verbatim>\<open>fitsAt(x, y)\<close> asks of one block, in the words of the specification.\<close>

definition fits_cell :: "Row list \<Rightarrow> rat \<Rightarrow> rat \<Rightarrow> Point \<Rightarrow> bool" where
  "fits_cell g x y b \<longleftrightarrow>
     0 \<le> Point_x b + x \<and> Point_x b + x < of_nat GRID_WIDTH
     \<and> Point_y b + y < of_nat GRID_HEIGHT
     \<and> (0 \<le> Point_y b + y \<longrightarrow> cell g (Point_y b + y) (Point_x b + x) = Some 0)"

text \<open>
  Line clearing in the words of the specification: the indices of the full rows are
  collected on the grid as it is before any removal, those rows are discarded, and as
  many fresh empty rows are put on top.
\<close>

definition spec_clearCompletedLines :: "Row list \<Rightarrow> Row list" where
  "spec_clearCompletedLines g =
     (let full = filter (\<lambda>i. every_nonzero (g ! i)) [0 ..< length g];
          kept = filter (\<lambda>i. i \<notin> set full) [0 ..< length g]
      in replicate (length full) newRow @ map (\<lambda>i. g ! i) kept)"

text \<open>
  The invariant of the supply: the bag holds every piece of the catalog once, and the
  cursor points into it.
\<close>

definition bag_ok :: "Bag \<Rightarrow> bool" where
  "bag_ok bg \<longleftrightarrow> mset (Bag_bag bg) = mset PIECES \<and> Bag_index bg < length (Bag_bag bg)"

text \<open>
  A piece on the integer lattice: integer blocks, and a centroid as the constructor
  asserts it, a multiple of 1/2 in each coordinate, whose two coordinates differ by an
  integer.
\<close>

definition on_lattice :: "Piece \<Rightarrow> bool" where
  "on_lattice p \<longleftrightarrow>
     (\<forall>b \<in> set (blocks p). integral b)
     \<and> isInt (Point_x (centroid p) * 2) \<and> isInt (Point_y (centroid p) * 2)
     \<and> Point_x (centroid p) - Point_y (centroid p) \<in> \<int>"

section \<open>Example states\<close>

text \<open>Grids and sessions on which the theorems below are run.\<close>

definition fullRow :: Row where
  "fullRow = ((\<lambda>r. row_push r 1) ^^ GRID_WIDTH) \<lparr>len = 0, props = Map.empty\<rparr>"

text \<open>Rows 3 and 5 are full; row 4, between them, holds a 7 in column 2.\<close>

definition grid_two_full :: "Row list" where
  "grid_two_full = initial_grid[3 := fullRow, 4 := row_set newRow 2 7, 5 := fullRow]"

text \<open>A sequence of random numbers: 1/3, 1/3 + 1/7, 1/3 + 2/7, ... (their fractional parts).\<close>

definition chance_example :: chance where
  "chance_example n = of_nat n / 7 + 1 / 3"

text \<open>Every cell occupied.\<close>

definition full_grid :: "Row list" where
  "full_grid = replicate GRID_HEIGHT fullRow"

text \<open>The I piece upright against the left wall, and the O piece in the middle.\<close>

definition piece_I_at_wall :: Piece where
  "piece_I_at_wall = (PIECES ! 0)\<lparr>position := \<lparr>Point_x = 0, Point_y = 5\<rparr>\<rparr>"

definition piece_O_mid :: Piece where
  "piece_O_mid = (PIECES ! 3)\<lparr>position := \<lparr>Point_x = 4, Point_y = 10\<rparr>\<rparr>"

text \<open>
  The O piece where \<^verbatim>\<open>spawn\<close> puts it, above the grid; resting on the floor; and in
  between, with room below.
\<close>

definition piece_O_spawned :: Piece where
  "piece_O_spawned = (PIECES ! 3)\<lparr>position := \<lparr>Point_x = 4, Point_y = - 2\<rparr>\<rparr>"

definition piece_O_low :: Piece where
  "piece_O_low = (PIECES ! 3)\<lparr>position := \<lparr>Point_x = 4, Point_y = 18\<rparr>\<rparr>"

definition piece_O_high :: Piece where
  "piece_O_high = (PIECES ! 3)\<lparr>position := \<lparr>Point_x = 4, Point_y = 3\<rparr>\<rparr>"

text \<open>The stack has reached the top: the cell in row 0, column 4 is occupied.\<close>

definition grid_topped :: "Row list" where
  "grid_topped = initial_grid[0 := row_set newRow 4 1]"

text \<open>No piece is active, the grid is topped, and the next piece of the bag is the O.\<close>

definition game_topped :: game where
  "game_topped =
     \<lparr>grid = grid_topped, currentPiece = None,
      bag = \<lparr>Bag_bag = PIECES, Bag_index = 3\<rparr>, rnd = chance_example\<rparr>"

text \<open>
  The last row lacks only the cells of columns 4 and 5; the O piece rests on the floor
  above them and is about to lock.
\<close>

definition game_locking :: game where
  "game_locking =
     \<lparr>grid = initial_grid[19 := fold (\<lambda>k r. row_set r k 1) [0, 1, 2, 3, 6, 7, 8, 9] newRow],
      currentPiece = Some piece_O_low,
      bag = \<lparr>Bag_bag = PIECES, Bag_index = 4\<rparr>, rnd = chance_example\<rparr>"

text \<open>
  A stack up to row 2 with a well two cells wide in rows 0 and 1, which the O piece is
  about to fill, completing both rows.
\<close>

definition game_high :: game where
  "game_high =
     \<lparr>grid = initial_grid
        [0 := fold (\<lambda>k r. row_set r k 1) [0, 1, 2, 3, 6, 7, 8, 9] newRow,
         1 := fold (\<lambda>k r. row_set r k 1) [0, 1, 2, 3, 6, 7, 8, 9] newRow,
         2 := fold (\<lambda>k r. row_set r k 1) [4, 5] newRow],
      currentPiece = Some ((PIECES ! 3)\<lparr>position := \<lparr>Point_x = 4, Point_y = 0\<rparr>\<rparr>),
      bag = \<lparr>Bag_bag = PIECES, Bag_index = 4\<rparr>, rnd = chance_example\<rparr>"

section \<open>The catalog\<close>

lemma PIECES_loaded: "load_pieces PIECE_STRINGS 0 = Inr PIECES"
  by code_simp

lemma PIECES_eq:
  "PIECES =
    [\<lparr>blocks = [\<lparr>Point_x = 0, Point_y = 0\<rparr>, \<lparr>Point_x = 0, Point_y = 1\<rparr>,
                 \<lparr>Point_x = 0, Point_y = 2\<rparr>, \<lparr>Point_x = 0, Point_y = 3\<rparr>],
      centroid = \<lparr>Point_x = 1 / 2, Point_y = 3 / 2\<rparr>, index = 1,
      position = \<lparr>Point_x = 0, Point_y = 0\<rparr>\<rparr>,
     \<lparr>blocks = [\<lparr>Point_x = 1, Point_y = 0\<rparr>, \<lparr>Point_x = 1, Point_y = 1\<rparr>,
                 \<lparr>Point_x = 0, Point_y = 2\<rparr>, \<lparr>Point_x = 1, Point_y = 2\<rparr>],
      centroid = \<lparr>Point_x = 1, Point_y = 1\<rparr>, index = 2,
      position = \<lparr>Point_x = 0, Point_y = 0\<rparr>\<rparr>,
     \<lparr>blocks = [\<lparr>Point_x = 0, Point_y = 0\<rparr>, \<lparr>Point_x = 0, Point_y = 1\<rparr>,
                 \<lparr>Point_x = 0, Point_y = 2\<rparr>, \<lparr>Point_x = 1, Point_y = 2\<rparr>],
      centroid = \<lparr>Point_x = 0, Point_y = 1\<rparr>, index = 3,
      position = \<lparr>Point_x = 0, Point_y = 0\<rparr>\<rparr>,
     \<lparr>blocks = [\<lparr>Point_x = 0, Point_y = 0\<rparr>, \<lparr>Point_x = 1, Point_y = 0\<rparr>,
                 \<lparr>Point_x = 0, Point_y = 1\<rparr>, \<lparr>Point_x = 1, Point_y = 1\<rparr>],
      centroid = \<lparr>Point_x = 1 / 2, Point_y = 1 / 2\<rparr>, index = 4,
      position = \<lparr>Point_x = 0, Point_y = 0\<rparr>\<rparr>,
     \<lparr>blocks = [\<lparr>Point_x = 1, Point_y = 0\<rparr>, \<lparr>Point_x = 2, Point_y = 0\<rparr>,
                 \<lparr>Point_x = 0, Point_y = 1\<rparr>, \<lparr>Point_x = 1, Point_y = 1\<rparr>],
      centroid = \<lparr>Point_x = 1, Point_y = 1\<rparr>, index = 5,
      position = \<lparr>Point_x = 0, Point_y = 0\<rparr>\<rparr>,
     \<lparr>blocks = [\<lparr>Point_x = 0, Point_y = 0\<rparr>, \<lparr>Point_x = 1, Point_y = 0\<rparr>,
                 \<lparr>Point_x = 1, Point_y = 1\<rparr>, \<lparr>Point_x = 2, Point_y = 1\<rparr>],
      centroid = \<lparr>Point_x = 1, Point_y = 1\<rparr>, index = 6,
      position = \<lparr>Point_x = 0, Point_y = 0\<rparr>\<rparr>,
     \<lparr>blocks = [\<lparr>Point_x = 0, Point_y = 0\<rparr>, \<lparr>Point_x = 1, Point_y = 0\<rparr>,
                 \<lparr>Point_x = 2, Point_y = 0\<rparr>, \<lparr>Point_x = 1, Point_y = 1\<rparr>],
      centroid = \<lparr>Point_x = 1, Point_y = 0\<rparr>, index = 7,
      position = \<lparr>Point_x = 0, Point_y = 0\<rparr>\<rparr>]"
  by code_simp

text \<open>Evaluation starts from the parsed catalog.\<close>

declare PIECES_eq [code]

section \<open>Rotation\<close>

lemma Point_rotate_inverse: "Point_rotate (\<not> ccw) c (Point_rotate ccw c b) = b"
  by (cases b) (simp add: Point_rotate_def)

lemma Point_rotate_twice:
  "Point_rotate ccw c (Point_rotate ccw c b) =
     \<lparr>Point_x = 2 * Point_x c - Point_x b, Point_y = 2 * Point_y c - Point_y b\<rparr>"
  by (simp add: Point_rotate_def)

lemma Point_rotate_four:
  "Point_rotate ccw c (Point_rotate ccw c (Point_rotate ccw c (Point_rotate ccw c b))) = b"
  by (cases b) (simp add: Point_rotate_twice)

lemma Piece_rotate_inverse: "Piece_rotate (\<not> ccw) (Piece_rotate ccw p) = p"
  by (simp add: Piece_rotate_def Point_rotate_inverse o_def)

lemma Piece_rotate_four: "(Piece_rotate ccw ^^ 4) p = p"
proof -
  have "(Piece_rotate ccw ^^ 4) p =
      Piece_rotate ccw (Piece_rotate ccw (Piece_rotate ccw (Piece_rotate ccw p)))"
    by (simp add: eval_nat_numeral)
  also have "\<dots> = p"
    by (simp add: Piece_rotate_def Point_rotate_four o_def)
  finally show ?thesis .
qed

text \<open>What \<^verbatim>\<open>Point.rotate\<close> computes for each value of its flag.\<close>

lemma Point_rotate_by_flag:
  "Point_rotate True center pt =
     \<lparr>Point_x = Point_x center - (Point_y pt - Point_y center),
      Point_y = Point_y center + (Point_x pt - Point_x center)\<rparr>
   \<and> Point_rotate False center pt =
     \<lparr>Point_x = Point_x center + (Point_y pt - Point_y center),
      Point_y = Point_y center - (Point_x pt - Point_x center)\<rparr>"
  by (simp add: Point_rotate_def)

text \<open>
  C2 gives the clockwise quarter turn as
  \<open>(x, y) \<mapsto> (center.x - (y - center.y), center.y + (x - center.x))\<close>. On the grid of
  the game rows grow downwards (\<^verbatim>\<open>moveDown\<close> adds 1 to \<open>position.y\<close>, and row 0 is the
  top row of the table), so this is the clockwise turn on screen: it takes the cell
  below the centre to the cell on its left. The code computes it for \<open>ccw\<close> true, and
  the opposite turn for \<open>ccw\<close> false. Its clockwise call \<^verbatim>\<open>rotate(false, center)\<close>
  takes the point \<open>(0, 1)\<close>, below the centre \<open>(0, 0)\<close>, to \<open>(1, 0)\<close>, on its right,
  where the formula of the claim gives \<open>(-1, 0)\<close>, which the code returns for \<open>ccw\<close>
  true. Likewise \<^verbatim>\<open>Piece.rotate(false)\<close> turns the stem of the T piece, the block
  \<open>(1, 1)\<close> below the centroid \<open>(1, 0)\<close>, to \<open>(2, 0)\<close>, on the right of the centroid:
  a counter-clockwise turn by the call the code names clockwise.
\<close>

theorem Point_rotate_false_turns_counterclockwise:
  "Point_rotate False \<lparr>Point_x = 0, Point_y = 0\<rparr> \<lparr>Point_x = 0, Point_y = 1\<rparr>
     = \<lparr>Point_x = 1, Point_y = 0\<rparr>
   \<and> \<lparr>Point_x = 0 - (1 - 0), Point_y = 0 + (0 - 0)\<rparr> = \<lparr>Point_x = - 1, Point_y = (0::rat)\<rparr>
   \<and> Point_rotate True \<lparr>Point_x = 0, Point_y = 0\<rparr> \<lparr>Point_x = 0, Point_y = 1\<rparr>
     = \<lparr>Point_x = - 1, Point_y = 0\<rparr>
   \<and> centroid (PIECES ! 6) = \<lparr>Point_x = 1, Point_y = 0\<rparr>
   \<and> blocks (PIECES ! 6) ! 3 = \<lparr>Point_x = 1, Point_y = 1\<rparr>
   \<and> blocks (Piece_rotate False (PIECES ! 6)) ! 3 = \<lparr>Point_x = 2, Point_y = 0\<rparr>
   \<and> blocks (Piece_rotate True (PIECES ! 6)) ! 3 = \<lparr>Point_x = 0, Point_y = 0\<rparr>"
proof -
  have "Point_rotate False \<lparr>Point_x = 0, Point_y = 0\<rparr> \<lparr>Point_x = 0, Point_y = 1\<rparr>
     = \<lparr>Point_x = 1, Point_y = 0\<rparr>"
    by (simp add: Point_rotate_def)
  moreover have "Point_rotate True \<lparr>Point_x = 0, Point_y = 0\<rparr> \<lparr>Point_x = 0, Point_y = 1\<rparr>
     = \<lparr>Point_x = - 1, Point_y = 0\<rparr>"
    by (simp add: Point_rotate_def)
  moreover have "centroid (PIECES ! 6) = \<lparr>Point_x = 1, Point_y = 0\<rparr>"
    "blocks (PIECES ! 6) ! 3 = \<lparr>Point_x = 1, Point_y = 1\<rparr>"
    by (simp_all add: PIECES_eq)
  moreover have "blocks (Piece_rotate False (PIECES ! 6)) ! 3 = \<lparr>Point_x = 2, Point_y = 0\<rparr>"
    by code_simp
  moreover have "blocks (Piece_rotate True (PIECES ! 6)) ! 3 = \<lparr>Point_x = 0, Point_y = 0\<rparr>"
    by code_simp
  ultimately show ?thesis by simp
qed

text \<open>
  C7: for every piece of the catalog and either direction, four rotations in the same
  direction give every block its original coordinates back.
\<close>

theorem rotate_four_times:
  "\<forall>p \<in> set PIECES. \<forall>ccw. blocks ((Piece_rotate ccw ^^ 4) p) = blocks p"
  by (simp add: Piece_rotate_four)

text \<open>The I piece, turned with \<open>ccw\<close> true: back after four rotations, not after two.\<close>

theorem rotate_four_times_witness:
  "PIECES ! 0 \<in> set PIECES
   \<and> blocks ((Piece_rotate True ^^ 4) (PIECES ! 0)) = blocks (PIECES ! 0)
   \<and> blocks ((Piece_rotate True ^^ 2) (PIECES ! 0)) \<noteq> blocks (PIECES ! 0)"
proof -
  have m: "PIECES ! 0 \<in> set PIECES"
    by (simp add: PIECES_eq)
  have two: "blocks ((Piece_rotate True ^^ 2) (PIECES ! 0)) \<noteq> blocks (PIECES ! 0)"
    by code_simp
  from rotate_four_times m
  have "blocks ((Piece_rotate True ^^ 4) (PIECES ! 0)) = blocks (PIECES ! 0)"
    by blast
  with m two show ?thesis by simp
qed

section \<open>Array indices\<close>

lemma array_index_of_nat:
  "array_index (of_nat n) = (if n < 2 ^ 32 - 1 then Some n else None)"
proof -
  have "(rat_of_nat n < 2 ^ 32 - 1) = (n < 2 ^ 32 - 1)"
  proof -
    have "(2::rat) ^ 32 - 1 = of_nat (2 ^ 32 - 1)" by simp
    then show ?thesis by (simp only: of_nat_less_iff)
  qed
  then show ?thesis by (simp add: array_index_def)
qed

lemma array_index_Some:
  "array_index k = Some n \<longleftrightarrow> k = of_nat n \<and> n < 2 ^ 32 - 1"
proof
  assume "array_index k = Some n"
  then have a: "0 \<le> k" "k = of_int \<lfloor>k\<rfloor>" "n = nat \<lfloor>k\<rfloor>"
    by (auto simp: array_index_def split: if_splits)
  from a(1) have "0 \<le> \<lfloor>k\<rfloor>" by simp
  with a(2,3) have k: "k = of_nat n" by (metis of_nat_nat)
  with \<open>array_index k = Some n\<close> show "k = of_nat n \<and> n < 2 ^ 32 - 1"
    by (simp add: array_index_of_nat split: if_splits)
next
  assume "k = of_nat n \<and> n < 2 ^ 32 - 1"
  then show "array_index k = Some n" by (simp add: array_index_of_nat)
qed

lemma array_index_neg: "k < 0 \<Longrightarrow> array_index k = None"
  by (simp add: array_index_def)

lemma array_index_int:
  "k \<in> \<int> \<Longrightarrow> 0 \<le> k \<Longrightarrow> k < 2 ^ 32 - 1 \<Longrightarrow> array_index k = Some (nat \<lfloor>k\<rfloor>)"
  by (auto simp: array_index_def Ints_def)

lemma grid_row_of_nat:
  "grid_row g (of_nat n) = (if n < length g \<and> n < 2 ^ 32 - 1 then Some (g ! n) else None)"
  by (simp add: grid_row_def array_index_of_nat)

lemma grid_row_Some:
  "grid_row g k = Some row \<longleftrightarrow>
     (\<exists>n. k = of_nat n \<and> n < length g \<and> n < 2 ^ 32 - 1 \<and> row = g ! n)"
proof
  assume h: "grid_row g k = Some row"
  then obtain n where n: "array_index k = Some n"
    by (auto simp: grid_row_def split: option.splits)
  then have "k = of_nat n" "n < 2 ^ 32 - 1" by (simp_all add: array_index_Some)
  moreover from h n have "n < length g" "row = g ! n"
    by (auto simp: grid_row_def split: if_splits)
  ultimately show "\<exists>n. k = of_nat n \<and> n < length g \<and> n < 2 ^ 32 - 1 \<and> row = g ! n"
    by blast
next
  assume "\<exists>n. k = of_nat n \<and> n < length g \<and> n < 2 ^ 32 - 1 \<and> row = g ! n"
  then show "grid_row g k = Some row"
    by (auto simp: grid_row_of_nat)
qed

lemma grid_row_neg: "k < 0 \<Longrightarrow> grid_row g k = None"
  by (simp add: grid_row_def array_index_neg)

lemma grid_row_int:
  assumes "k \<in> \<int>" "0 \<le> k" "k < of_nat (length g)" "length g \<le> GRID_HEIGHT"
  shows "grid_row g k = Some (g ! nat \<lfloor>k\<rfloor>)"
proof -
  from assms(3,4) have "k < 20" by (simp add: GRID_HEIGHT_def)
  then have "k < 2 ^ 32 - 1" by simp
  with assms(1,2) have "array_index k = Some (nat \<lfloor>k\<rfloor>)" by (rule array_index_int)
  moreover from assms(1,2,3) have "nat \<lfloor>k\<rfloor> < length g"
    by (auto simp: Ints_def)
  ultimately show ?thesis by (simp add: grid_row_def)
qed

section \<open>The collision test\<close>

lemma fitsAt_blocks_True:
  "fitsAt_blocks g bs x y = Inr True \<longleftrightarrow> (\<forall>b \<in> set bs. fits_cell g x y b)"
  by (induction bs) (auto simp: fits_cell_def cell_def Let_def split: option.splits)

text \<open>On blocks in integer rows of a grid of full height the test does not throw.\<close>

lemma fitsAt_blocks_no_error:
  assumes "\<forall>b \<in> set bs. Point_y b + y \<in> \<int>" "length g = GRID_HEIGHT"
  shows "fitsAt_blocks g bs x y = Inr (\<forall>b \<in> set bs. fits_cell g x y b)"
  using assms(1)
proof (induction bs)
  case Nil
  then show ?case by simp
next
  case (Cons b bs)
  then have ih: "fitsAt_blocks g bs x y = Inr (\<forall>b \<in> set bs. fits_cell g x y b)"
    and int: "Point_y b + y \<in> \<int>" by simp_all
  show ?case
  proof (cases "0 \<le> Point_y b + y \<and> Point_y b + y < of_nat GRID_HEIGHT")
    case True
    with int assms(2) have "grid_row g (Point_y b + y) = Some (g ! nat \<lfloor>Point_y b + y\<rfloor>)"
      by (intro grid_row_int) simp_all
    with True ih show ?thesis
      by (auto simp: fits_cell_def cell_def Let_def)
  next
    case False
    with ih show ?thesis
      by (auto simp: fits_cell_def cell_def Let_def)
  qed
qed

text \<open>Where a piece fits, its columns are columns of the grid.\<close>

lemma fitsAt_columns:
  "fst (fitsAt g p x y) = Inr True \<Longrightarrow>
     \<forall>b \<in> set (blocks p). 0 \<le> Point_x b + x \<and> Point_x b + x < of_nat GRID_WIDTH"
  by (simp add: fitsAt_def fitsAt_blocks_True fits_cell_def)

text \<open>
  C4: for every piece, grid and \<open>x\<close>, \<open>y\<close>, \<^verbatim>\<open>fitsAt(x, y)\<close> returns true if and only
  if every block's absolute cell has its column in \<open>[0, width)\<close>, its row below
  \<open>height\<close> and, when the row is not negative, is an empty cell of the grid; rows above
  the grid ask nothing of the grid. The call leaves the grid and the piece as they were.
  Where every block's row is an integer and the grid has its \<open>height\<close> rows, the call
  returns true or false and does not throw.
\<close>

theorem fitsAt_iff:
  "(fst (fitsAt g p x y) = Inr True \<longleftrightarrow>
      (\<forall>b \<in> set (blocks p).
         0 \<le> Point_x b + x \<and> Point_x b + x < of_nat GRID_WIDTH
         \<and> Point_y b + y < of_nat GRID_HEIGHT
         \<and> (0 \<le> Point_y b + y \<longrightarrow> cell g (Point_y b + y) (Point_x b + x) = Some 0)))
   \<and> snd (fitsAt g p x y) = (g, p)
   \<and> ((\<forall>b \<in> set (blocks p). Point_y b + y \<in> \<int>) \<and> length g = GRID_HEIGHT
        \<longrightarrow> fst (fitsAt g p x y) \<in> {Inr True, Inr False})"
proof (intro conjI impI)
  show "fst (fitsAt g p x y) = Inr True \<longleftrightarrow>
      (\<forall>b \<in> set (blocks p).
         0 \<le> Point_x b + x \<and> Point_x b + x < of_nat GRID_WIDTH
         \<and> Point_y b + y < of_nat GRID_HEIGHT
         \<and> (0 \<le> Point_y b + y \<longrightarrow> cell g (Point_y b + y) (Point_x b + x) = Some 0))"
    by (simp add: fitsAt_def fitsAt_blocks_True fits_cell_def)
  show "snd (fitsAt g p x y) = (g, p)"
    by (simp add: fitsAt_def)
next
  assume "(\<forall>b \<in> set (blocks p). Point_y b + y \<in> \<int>) \<and> length g = GRID_HEIGHT"
  then have "fitsAt_blocks g (blocks p) x y = Inr (\<forall>b \<in> set (blocks p). fits_cell g x y b)"
    by (intro fitsAt_blocks_no_error) simp_all
  then show "fst (fitsAt g p x y) \<in> {Inr True, Inr False}"
    by (cases "\<forall>b \<in> set (blocks p). fits_cell g x y b") (simp_all add: fitsAt_def)
qed

text \<open>
  The O piece on the empty grid: it fits with its lower blocks in the last row, 19,
  whose cell in column 5 is therefore empty; one row lower it does not fit.
\<close>

theorem fitsAt_iff_witness:
  "fst (fitsAt initial_grid (PIECES ! 3) 4 18) = Inr True
   \<and> cell initial_grid (1 + 18) (1 + 4) = Some 0
   \<and> fst (fitsAt initial_grid (PIECES ! 3) 4 19) = Inr False
   \<and> snd (fitsAt initial_grid (PIECES ! 3) 4 18) = (initial_grid, PIECES ! 3)"
proof -
  have t: "fst (fitsAt initial_grid (PIECES ! 3) 4 18) = Inr True"
    by code_simp
  have f: "fst (fitsAt initial_grid (PIECES ! 3) 4 19) = Inr False"
    by code_simp
  have b: "\<lparr>Point_x = 1, Point_y = 1\<rparr> \<in> set (blocks (PIECES ! 3))"
    by (simp add: PIECES_eq)
  note spec = fitsAt_iff [of initial_grid "PIECES ! 3" 4 18]
  from spec t have
    "\<forall>b \<in> set (blocks (PIECES ! 3)).
       0 \<le> Point_y b + 18 \<longrightarrow> cell initial_grid (Point_y b + 18) (Point_x b + 4) = Some 0"
    by blast
  with b have "cell initial_grid (1 + 18) (1 + 4) = Some 0"
    by fastforce
  with t f spec show ?thesis by blast
qed

section \<open>Line clearing\<close>

lemma clear_loop_filter:
  "n \<le> length g \<Longrightarrow>
     clear_loop n g = (Inr (), filter (\<lambda>r. \<not> every_nonzero r) (take n g) @ drop n g)"
proof (induction n arbitrary: g)
  case 0
  then show ?case by simp
next
  case (Suc y)
  then have y: "y < length g" by simp
  show ?case
  proof (cases "every_nonzero (g ! y)")
    case True
    let ?g = "take y g @ drop (Suc y) g"
    from y have "y \<le> length ?g" by simp
    then have "clear_loop y ?g = (Inr (), filter (\<lambda>r. \<not> every_nonzero r) (take y ?g) @ drop y ?g)"
      by (rule Suc.IH)
    moreover from y have "take y ?g = take y g" "drop y ?g = drop (Suc y) g" by simp_all
    ultimately show ?thesis
      using y True by (simp add: take_Suc_conv_app_nth)
  next
    case False
    from y have "clear_loop y g = (Inr (), filter (\<lambda>r. \<not> every_nonzero r) (take y g) @ drop y g)"
      by (intro Suc.IH) simp
    then show ?thesis
      using y False by (simp add: take_Suc_conv_app_nth Cons_nth_drop_Suc)
  qed
qed

lemma refill_short:
  "length g \<le> GRID_HEIGHT \<Longrightarrow> refill g = Some (replicate (GRID_HEIGHT - length g) newRow @ g)"
proof (induction "GRID_HEIGHT - length g" arbitrary: g)
  case 0
  then show ?case by (subst refill.simps) simp
next
  case (Suc k)
  then have "k = GRID_HEIGHT - length (newRow # g)" "length (newRow # g) \<le> GRID_HEIGHT"
    by simp_all
  then have "refill (newRow # g) = Some (replicate (GRID_HEIGHT - length (newRow # g)) newRow @ newRow # g)"
    by (rule Suc.hyps(1))
  moreover from Suc.hyps(2) have "length g \<noteq> GRID_HEIGHT" by simp
  moreover from Suc.hyps(2) have "GRID_HEIGHT - length g = Suc (GRID_HEIGHT - length (newRow # g))"
    by simp
  ultimately show ?case
    by (subst refill.simps) (simp add: replicate_app_Cons_same)
qed

lemma clearLines_filter:
  assumes "length g = GRID_HEIGHT"
  shows "clearLines g =
     Some (Inr (), replicate (length (filter every_nonzero g)) newRow
                   @ filter (\<lambda>r. \<not> every_nonzero r) g)"
proof -
  let ?kept = "filter (\<lambda>r. \<not> every_nonzero r) g"
  from assms have "clear_loop GRID_HEIGHT g = (Inr (), ?kept)"
    by (simp add: clear_loop_filter)
  moreover have "length ?kept \<le> GRID_HEIGHT"
    using assms length_filter_le [of _ g] by simp
  then have "refill ?kept = Some (replicate (GRID_HEIGHT - length ?kept) newRow @ ?kept)"
    by (rule refill_short)
  moreover have "GRID_HEIGHT - length ?kept = length (filter every_nonzero g)"
    using assms sum_length_filter_compl [of every_nonzero g] by simp
  ultimately show ?thesis by (simp add: clearLines_def)
qed

lemma map_nth_filter_upt:
  "map (\<lambda>i. g ! i) (filter (\<lambda>i. P (g ! i)) [0 ..< length g]) = filter P g"
proof -
  have "map (\<lambda>i. g ! i) (filter (\<lambda>i. P (g ! i)) [0 ..< length g])
      = filter P (map (\<lambda>i. g ! i) [0 ..< length g])"
    by (simp add: filter_map o_def)
  then show ?thesis by (simp add: map_nth)
qed

lemma spec_clearCompletedLines_filter:
  "spec_clearCompletedLines g =
     replicate (length (filter every_nonzero g)) newRow @ filter (\<lambda>r. \<not> every_nonzero r) g"
proof -
  let ?full = "filter (\<lambda>i. every_nonzero (g ! i)) [0 ..< length g]"
  have "length ?full = length (map (\<lambda>i. g ! i) ?full)" by simp
  also have "\<dots> = length (filter every_nonzero g)"
    using map_nth_filter_upt [of g every_nonzero] by simp
  finally have n: "length ?full = length (filter every_nonzero g)" .
  have "filter (\<lambda>i. i \<notin> set ?full) [0 ..< length g]
      = filter (\<lambda>i. \<not> every_nonzero (g ! i)) [0 ..< length g]"
    by (rule filter_cong) auto
  then have "map (\<lambda>i. g ! i) (filter (\<lambda>i. i \<notin> set ?full) [0 ..< length g])
      = filter (\<lambda>r. \<not> every_nonzero r) g"
    using map_nth_filter_upt [of g "\<lambda>r. \<not> every_nonzero r"] by simp
  with n show ?thesis by (simp add: spec_clearCompletedLines_def Let_def)
qed

text \<open>
  C6: on a grid of \<open>height\<close> rows, \<^verbatim>\<open>clearLines\<close> returns, and leaves the grid that
  the specification describes: the rows in which every cell is non-empty, found on the
  grid as it was, are gone, the other rows keep their order, and one fresh row of
  \<open>width\<close> empty cells stands on top for each row removed. The grid has \<open>height\<close>
  rows again.
\<close>

theorem clearLines_spec:
  assumes "length g = GRID_HEIGHT"
  shows "clearLines g = Some (Inr (), spec_clearCompletedLines g)
    \<and> spec_clearCompletedLines g =
        replicate (length (filter every_nonzero g)) newRow @ filter (\<lambda>r. \<not> every_nonzero r) g
    \<and> length (spec_clearCompletedLines g) = GRID_HEIGHT
    \<and> len newRow = GRID_WIDTH
    \<and> list_all (\<lambda>c. props newRow (of_nat c) = Some 0) [0 ..< GRID_WIDTH]"
proof -
  have "length (spec_clearCompletedLines g) = GRID_HEIGHT"
    using assms sum_length_filter_compl [of every_nonzero g]
    by (simp add: spec_clearCompletedLines_filter)
  moreover have "len newRow = GRID_WIDTH" by code_simp
  moreover have "list_all (\<lambda>c. props newRow (of_nat c) = Some 0) [0 ..< GRID_WIDTH]"
    by code_simp
  ultimately show ?thesis
    using assms by (simp add: clearLines_filter spec_clearCompletedLines_filter)
qed

text \<open>
  The grid with rows 3 and 5 full: afterwards no row is full, and the 7 of row 4 is
  found in row 5, one row lower, under two fresh rows.
\<close>

theorem clearLines_spec_witness:
  "length grid_two_full = GRID_HEIGHT
   \<and> clearLines grid_two_full = Some (Inr (), spec_clearCompletedLines grid_two_full)
   \<and> filter (\<lambda>i. every_nonzero (grid_two_full ! i)) [0 ..< 20] = [3, 5]
   \<and> filter every_nonzero (spec_clearCompletedLines grid_two_full) = []
   \<and> filter (\<lambda>i. props (spec_clearCompletedLines grid_two_full ! i) 2 = Some 7) [0 ..< 20] = [5]"
proof -
  have h: "length grid_two_full = GRID_HEIGHT"
    by code_simp
  have a: "filter (\<lambda>i. every_nonzero (grid_two_full ! i)) [0 ..< 20] = [3, 5]"
    by code_simp
  have b: "filter every_nonzero (spec_clearCompletedLines grid_two_full) = []"
    by code_simp
  have c: "filter (\<lambda>i. props (spec_clearCompletedLines grid_two_full ! i) 2 = Some 7) [0 ..< 20] = [5]"
    by code_simp
  from clearLines_spec [OF h] h a b c show ?thesis by simp
qed

text \<open>
  Off the invariant: on a grid of fewer rows the first loop throws at the row that
  does not exist, and on a grid that has more than \<open>height\<close> rows left after the first
  loop the second loop never ends.
\<close>

lemma clearLines_short: "length g < GRID_HEIGHT \<Longrightarrow> clearLines g = Some (Inl TypeError, g)"
proof -
  assume "length g < GRID_HEIGHT"
  then have "\<not> 19 < length g" by (simp add: GRID_HEIGHT_def)
  then have "clear_loop (Suc 19) g = (Inl TypeError, g)" by (subst clear_loop.simps) simp
  moreover have "GRID_HEIGHT = Suc 19" by (simp add: GRID_HEIGHT_def)
  ultimately have "clear_loop GRID_HEIGHT g = (Inl TypeError, g)" by (simp only:)
  then show ?thesis by (simp add: clearLines_def)
qed

lemma refill_Some_short: "refill g = Some g' \<Longrightarrow> length g \<le> GRID_HEIGHT"
proof (rule refill.raw_induct [where P = "\<lambda>g g'. length g \<le> GRID_HEIGHT" and g = g and y = g'])
  fix f g g'
  assume ih: "\<And>x y. f x = Some y \<Longrightarrow> length x \<le> GRID_HEIGHT"
    and step: "(if length g \<noteq> GRID_HEIGHT then f (newRow # g) else Some g) = Some g'"
  show "length g \<le> GRID_HEIGHT"
  proof (cases "length g = GRID_HEIGHT")
    case True
    then show ?thesis by simp
  next
    case False
    with step have "f (newRow # g) = Some g'" by simp
    then have "length (newRow # g) \<le> GRID_HEIGHT" by (rule ih)
    then show ?thesis by simp
  qed
qed

lemma refill_long: "GRID_HEIGHT < length g \<Longrightarrow> refill g = None"
  using refill_Some_short [of g] by (cases "refill g") auto

lemma clearLines_long:
  assumes "GRID_HEIGHT \<le> length g"
    and "GRID_HEIGHT < length (filter (\<lambda>r. \<not> every_nonzero r) (take GRID_HEIGHT g))
                       + (length g - GRID_HEIGHT)"
  shows "clearLines g = None"
proof -
  from assms(1) have "clear_loop GRID_HEIGHT g =
      (Inr (), filter (\<lambda>r. \<not> every_nonzero r) (take GRID_HEIGHT g) @ drop GRID_HEIGHT g)"
    by (rule clear_loop_filter)
  moreover from assms
  have "refill (filter (\<lambda>r. \<not> every_nonzero r) (take GRID_HEIGHT g) @ drop GRID_HEIGHT g) = None"
    by (intro refill_long) simp
  ultimately show ?thesis by (simp add: clearLines_def)
qed

section \<open>The bag\<close>

lemma Math_random_range: "0 \<le> fst (Math_random r) \<and> fst (Math_random r) < 1"
  by (simp add: Math_random_def frac_lt_1)

lemma toInt32_small:
  assumes "0 \<le> q" "q < 2 ^ 31"
  shows "toInt32 q = \<lfloor>q\<rfloor>"
proof -
  from assms(1) have t: "trunc q = \<lfloor>q\<rfloor>" by (simp add: trunc_def)
  from assms(1) have lo: "0 \<le> \<lfloor>q\<rfloor>" by simp
  from assms(2) have "\<lfloor>q\<rfloor> < 2 ^ 31" by (simp add: floor_less_iff)
  with lo t show ?thesis by (simp add: toInt32_def)
qed

lemma random_index:
  assumes "0 \<le> u" "u < 1" "i < 2 ^ 31 - 1"
  shows "nat (toInt32 (u * (of_nat i + 1))) \<le> i"
proof -
  let ?q = "u * (rat_of_nat i + 1)"
  have pos: "0 < rat_of_nat i + 1" by (simp add: add_pos_nonneg)
  from assms(1) have q0: "0 \<le> ?q" by simp
  from assms(2) pos have q1: "?q < rat_of_nat i + 1"
    by (metis mult.commute mult.right_neutral mult_strict_left_mono)
  have le: "rat_of_nat i + 1 \<le> 2 ^ 31"
  proof -
    from assms(3) have "i + 1 \<le> 2 ^ 31" by simp
    then have "rat_of_nat (i + 1) \<le> of_nat (2 ^ 31)" by (simp only: of_nat_le_iff)
    then show ?thesis by simp
  qed
  from q1 le have "?q < 2 ^ 31" by (rule less_le_trans)
  with q0 have "toInt32 ?q = \<lfloor>?q\<rfloor>" by (rule toInt32_small)
  moreover have "\<lfloor>?q\<rfloor> < int i + 1"
  proof -
    from q1 have "?q < of_int (int i + 1)" by simp
    then show ?thesis by (simp only: floor_less_iff)
  qed
  ultimately show ?thesis by simp
qed

lemma shuffle_loop_mset:
  "k < length b \<Longrightarrow> length b < 2 ^ 31 \<Longrightarrow> mset (fst (shuffle_loop k b r)) = mset b"
proof (induction k arbitrary: b r)
  case 0
  then show ?case by simp
next
  case (Suc k)
  obtain u r' where m: "Math_random r = (u, r')" by (cases "Math_random r")
  with Math_random_range [of r] have u: "0 \<le> u" "u < 1" by simp_all
  let ?j = "nat (toInt32 (u * (of_nat (Suc k) + 1)))"
  let ?b = "b[Suc k := b ! ?j, ?j := b ! Suc k]"
  from Suc.prems have "Suc k < 2 ^ 31 - 1" by simp
  with u have j: "?j \<le> Suc k" by (rule random_index)
  with Suc.prems have "?j < length b" by simp
  with Suc.prems have sw: "mset ?b = mset b" by (simp add: mset_swap)
  have "k < length ?b" "length ?b < 2 ^ 31" using Suc.prems by simp_all
  then have "mset (fst (shuffle_loop k ?b r')) = mset ?b" by (rule Suc.IH)
  with sw m show ?case by (simp add: Let_def)
qed

lemma shuffle_mset:
  assumes "length (Bag_bag bg) < 2 ^ 31"
  shows "mset (Bag_bag (fst (shuffle bg r))) = mset (Bag_bag bg) \<and> Bag_index (fst (shuffle bg r)) = 0"
proof (cases "Bag_bag bg = []")
  case True
  then show ?thesis by (simp add: shuffle_def)
next
  case False
  then have "length (Bag_bag bg) - 1 < length (Bag_bag bg)" by simp
  with assms have "mset (fst (shuffle_loop (length (Bag_bag bg) - 1) (Bag_bag bg) r)) = mset (Bag_bag bg)"
    by (intro shuffle_loop_mset)
  then show ?thesis by (auto simp: shuffle_def split: prod.splits)
qed


lemma length_PIECES: "length PIECES = 7"
  by (simp add: PIECES_eq)

lemma bag_ok_length: "bag_ok bg \<Longrightarrow> length (Bag_bag bg) = 7"
  using mset_eq_length [of "Bag_bag bg" PIECES] by (simp add: bag_ok_def length_PIECES)

lemma clone_all_PIECES: "clone_all PIECES = Inr PIECES"
  by code_simp

lemma Bag_new_ok:
  "Bag_new r = Inr (shuffle \<lparr>Bag_bag = PIECES, Bag_index = 0\<rparr> r)
   \<and> bag_ok (fst (shuffle \<lparr>Bag_bag = PIECES, Bag_index = 0\<rparr> r))
   \<and> Bag_index (fst (shuffle \<lparr>Bag_bag = PIECES, Bag_index = 0\<rparr> r)) = 0"
proof -
  let ?bg = "\<lparr>Bag_bag = PIECES, Bag_index = 0\<rparr>"
  have "length (Bag_bag ?bg) < 2 ^ 31" by (simp add: length_PIECES)
  then have m: "mset (Bag_bag (fst (shuffle ?bg r))) = mset (Bag_bag ?bg)
      \<and> Bag_index (fst (shuffle ?bg r)) = 0"
    by (rule shuffle_mset)
  then have "length (Bag_bag (fst (shuffle ?bg r))) = 7"
    using mset_eq_length [of "Bag_bag (fst (shuffle ?bg r))" PIECES] by (simp add: length_PIECES)
  with m show ?thesis by (simp add: Bag_new_def clone_all_PIECES bag_ok_def)
qed

lemma Bag_next_ok:
  assumes "bag_ok bg"
  shows "fst (Bag_next bg r) = Some (Bag_bag bg ! Bag_index bg)
    \<and> bag_ok (fst (snd (Bag_next bg r)))
    \<and> (if Suc (Bag_index bg) < length (Bag_bag bg)
        then snd (Bag_next bg r) = (bg\<lparr>Bag_index := Suc (Bag_index bg)\<rparr>, r)
        else Bag_index (fst (snd (Bag_next bg r))) = 0)"
proof (cases "Suc (Bag_index bg) < length (Bag_bag bg)")
  case True
  with assms show ?thesis by (simp add: Bag_next_def bag_ok_def Let_def)
next
  case False
  let ?bg1 = "bg\<lparr>Bag_index := Bag_index bg + 1\<rparr>"
  from assms have "length (Bag_bag ?bg1) < 2 ^ 31" by (simp add: bag_ok_length)
  then have m: "mset (Bag_bag (fst (shuffle ?bg1 r))) = mset (Bag_bag ?bg1)
      \<and> Bag_index (fst (shuffle ?bg1 r)) = 0"
    by (rule shuffle_mset)
  with assms have "length (Bag_bag (fst (shuffle ?bg1 r))) = 7"
    using mset_eq_length [of "Bag_bag (fst (shuffle ?bg1 r))" PIECES]
    by (simp add: length_PIECES bag_ok_def)
  with m assms have "bag_ok (fst (shuffle ?bg1 r))" by (simp add: bag_ok_def)
  with m False assms show ?thesis
    by (simp add: Bag_next_def bag_ok_def Let_def split: prod.splits)
qed

lemma draw_rest:
  "bag_ok bg \<Longrightarrow> n = length (Bag_bag bg) - Bag_index bg \<Longrightarrow>
     fst (draw n (bg, r)) = map Some (drop (Bag_index bg) (Bag_bag bg))
     \<and> bag_ok (fst (snd (draw n (bg, r))))
     \<and> Bag_index (fst (snd (draw n (bg, r)))) = 0"
proof (induction n arbitrary: bg r)
  case 0
  then show ?case by (simp add: bag_ok_def)
next
  case (Suc n)
  note nx = Bag_next_ok [OF Suc.prems(1), of r]
  obtain ret bg' r' where e: "Bag_next bg r = (ret, bg', r')" by (cases "Bag_next bg r")
  from Suc.prems have i: "Bag_index bg < length (Bag_bag bg)" by (simp add: bag_ok_def)
  show ?case
  proof (cases "Suc (Bag_index bg) < length (Bag_bag bg)")
    case True
    from nx e have s1: "ret = Some (Bag_bag bg ! Bag_index bg)" by simp
    from nx e have s2: "bag_ok bg'" by simp
    from nx e True have s3: "bg' = bg\<lparr>Bag_index := Suc (Bag_index bg)\<rparr>" by simp
    note s = s1 s2 s3
    with Suc.prems(2) have "n = length (Bag_bag bg') - Bag_index bg'" by simp
    with s(2) have "fst (draw n (bg', r')) = map Some (drop (Bag_index bg') (Bag_bag bg'))
     \<and> bag_ok (fst (snd (draw n (bg', r'))))
     \<and> Bag_index (fst (snd (draw n (bg', r')))) = 0"
      by (rule Suc.IH)
    moreover from i have "drop (Bag_index bg) (Bag_bag bg)
        = Bag_bag bg ! Bag_index bg # drop (Suc (Bag_index bg)) (Bag_bag bg)"
      by (simp add: Cons_nth_drop_Suc)
    ultimately show ?thesis
      using e s1 s3 by (simp add: case_prod_beta)
  next
    case False
    with i Suc.prems(2) have n0: "n = 0" and last: "Suc (Bag_index bg) = length (Bag_bag bg)"
      by simp_all
    from last have "drop (Bag_index bg) (Bag_bag bg) = [Bag_bag bg ! Bag_index bg]"
      by (metis Cons_nth_drop_Suc drop_all i order_refl)
    with nx e False n0 show ?thesis by (simp add: case_prod_beta)
  qed
qed

lemma draw_add:
  "draw (m + n) s =
     (case draw m s of (xs, s') \<Rightarrow> case draw n s' of (ys, s'') \<Rightarrow> (xs @ ys, s''))"
  by (induction m arbitrary: s) (simp_all add: case_prod_beta)

lemma draw_seven:
  assumes "bag_ok bg" "Bag_index bg = 0"
  shows "fst (draw 7 (bg, r)) = map Some (Bag_bag bg)
     \<and> bag_ok (fst (snd (draw 7 (bg, r))))
     \<and> Bag_index (fst (snd (draw 7 (bg, r)))) = 0"
proof -
  from assms have "7 = length (Bag_bag bg) - Bag_index bg" by (simp add: bag_ok_length)
  with assms(1) have "fst (draw 7 (bg, r)) = map Some (drop (Bag_index bg) (Bag_bag bg))
     \<and> bag_ok (fst (snd (draw 7 (bg, r))))
     \<and> Bag_index (fst (snd (draw 7 (bg, r)))) = 0"
    by (rule draw_rest)
  with assms(2) show ?thesis by simp
qed

lemma draw_aligned:
  assumes "bag_ok bg" "Bag_index bg = 0"
  shows "bag_ok (fst (snd (draw (7 * k) (bg, r)))) \<and> Bag_index (fst (snd (draw (7 * k) (bg, r)))) = 0"
proof (induction k)
  case 0
  with assms show ?case by simp
next
  case (Suc k)
  obtain xs bg' r' where d: "draw (7 * k) (bg, r) = (xs, bg', r')"
    by (cases "draw (7 * k) (bg, r)") auto
  with Suc have "bag_ok bg'" "Bag_index bg' = 0" by simp_all
  then have "bag_ok (fst (snd (draw 7 (bg', r')))) \<and> Bag_index (fst (snd (draw 7 (bg', r')))) = 0"
    using draw_seven [of bg' r'] by simp
  moreover have "7 * Suc k = 7 * k + 7" by simp
  ultimately show ?case
    using d by (simp only: draw_add) (simp add: case_prod_beta)
qed

lemma draw_cursor:
  "bag_ok bg \<Longrightarrow> bag_ok (fst (snd (draw n (bg, r))))"
proof (induction n arbitrary: bg r)
  case 0
  then show ?case by simp
next
  case (Suc n)
  obtain ret bg' r' where e: "Bag_next bg r = (ret, bg', r')" by (cases "Bag_next bg r")
  with Bag_next_ok [OF Suc.prems, of r] have "bag_ok bg'" by simp
  then have "bag_ok (fst (snd (draw n (bg', r'))))" by (rule Suc.IH)
  with e show ?case by (simp add: case_prod_beta)
qed

lemma index_PIECES: "map index PIECES = [1, 2, 3, 4, 5, 6, 7]"
  by (simp add: PIECES_eq)

text \<open>
  C8: whatever numbers \<^verbatim>\<open>Math.random()\<close> returns, a fresh bag is built without an
  exception, and each run of 7 calls of \<^verbatim>\<open>next()\<close> that starts after 7k calls
  returns seven pieces whose identities are, as a multiset, those of the catalog, which
  are 1 to 7, each once. After any number of calls the cursor is below the size of the
  bag, which is 7.
\<close>

theorem bag_seven:
  "\<exists>bg0 r0. Bag_new r = Inr (bg0, r0)
     \<and> (\<forall>k. \<exists>ps. fst (draw 7 (snd (draw (7 * k) (bg0, r0)))) = map Some ps
              \<and> mset (map index ps) = mset (map index PIECES))
     \<and> (\<forall>n. Bag_index (fst (snd (draw n (bg0, r0))))
               < length (Bag_bag (fst (snd (draw n (bg0, r0)))))
            \<and> length (Bag_bag (fst (snd (draw n (bg0, r0))))) = 7)
     \<and> map index PIECES = [1, 2, 3, 4, 5, 6, 7]"
proof -
  obtain bg0 r0 where s: "shuffle \<lparr>Bag_bag = PIECES, Bag_index = 0\<rparr> r = (bg0, r0)"
    by (cases "shuffle \<lparr>Bag_bag = PIECES, Bag_index = 0\<rparr> r")
  with Bag_new_ok [of r] have new: "Bag_new r = Inr (bg0, r0)" and ok: "bag_ok bg0"
    and i0: "Bag_index bg0 = 0" by simp_all
  have blocks: "\<exists>ps. fst (draw 7 (snd (draw (7 * k) (bg0, r0)))) = map Some ps
              \<and> mset (map index ps) = mset (map index PIECES)" for k
  proof -
    obtain xs bg r' where d: "draw (7 * k) (bg0, r0) = (xs, bg, r')"
      by (cases "draw (7 * k) (bg0, r0)") auto
    with draw_aligned [OF ok i0, of k r0] have b: "bag_ok bg" "Bag_index bg = 0" by simp_all
    then have "fst (draw 7 (bg, r')) = map Some (Bag_bag bg)"
      using draw_seven [of bg r'] by simp
    moreover from b(1) have "mset (map index (Bag_bag bg)) = mset (map index PIECES)"
      by (simp add: bag_ok_def)
    ultimately show ?thesis using d by auto
  qed
  have cursor: "Bag_index (fst (snd (draw n (bg0, r0))))
               < length (Bag_bag (fst (snd (draw n (bg0, r0)))))
            \<and> length (Bag_bag (fst (snd (draw n (bg0, r0))))) = 7" for n
  proof -
    have b: "bag_ok (fst (snd (draw n (bg0, r0))))"
      using ok by (rule draw_cursor)
    then have "Bag_index (fst (snd (draw n (bg0, r0))))
        < length (Bag_bag (fst (snd (draw n (bg0, r0)))))"
      by (simp add: bag_ok_def)
    with bag_ok_length [OF b] show ?thesis by simp
  qed
  have "Bag_new r = Inr (bg0, r0)
     \<and> (\<forall>k. \<exists>ps. fst (draw 7 (snd (draw (7 * k) (bg0, r0)))) = map Some ps
              \<and> mset (map index ps) = mset (map index PIECES))
     \<and> (\<forall>n. Bag_index (fst (snd (draw n (bg0, r0))))
               < length (Bag_bag (fst (snd (draw n (bg0, r0)))))
            \<and> length (Bag_bag (fst (snd (draw n (bg0, r0))))) = 7)
     \<and> map index PIECES = [1, 2, 3, 4, 5, 6, 7]"
  proof (intro conjI allI)
    show "Bag_new r = Inr (bg0, r0)" by (rule new)
    show "map index PIECES = [1, 2, 3, 4, 5, 6, 7]" by (rule index_PIECES)
    show "\<exists>ps. fst (draw 7 (snd (draw (7 * k) (bg0, r0)))) = map Some ps
              \<and> mset (map index ps) = mset (map index PIECES)" for k
      by (rule blocks)
    show "Bag_index (fst (snd (draw n (bg0, r0))))
               < length (Bag_bag (fst (snd (draw n (bg0, r0)))))" for n
      using cursor [of n] by (rule conjunct1)
    show "length (Bag_bag (fst (snd (draw n (bg0, r0))))) = 7" for n
      using cursor [of n] by (rule conjunct2)
  qed
  then show ?thesis by (intro exI)
qed

text \<open>
  On the example numbers: the third run of seven calls returns the identities 1 to 7,
  and after ten calls the cursor is below 7.
\<close>

theorem bag_seven_witness:
  "\<exists>bg0 r0 ps. Bag_new chance_example = Inr (bg0, r0)
     \<and> fst (draw 7 (snd (draw (7 * 2) (bg0, r0)))) = map Some ps
     \<and> mset (map index ps) = mset [1, 2, 3, 4, 5, 6, 7]
     \<and> Bag_index (fst (snd (draw 10 (bg0, r0)))) < 7"
proof -
  from bag_seven [of chance_example] obtain bg0 r0 where
    new: "Bag_new chance_example = Inr (bg0, r0)" and
    runs: "\<forall>k. \<exists>ps. fst (draw 7 (snd (draw (7 * k) (bg0, r0)))) = map Some ps
              \<and> mset (map index ps) = mset (map index PIECES)" and
    cursor: "\<forall>n. Bag_index (fst (snd (draw n (bg0, r0))))
               < length (Bag_bag (fst (snd (draw n (bg0, r0)))))
            \<and> length (Bag_bag (fst (snd (draw n (bg0, r0))))) = 7" and
    ids: "map index PIECES = [1, 2, 3, 4, 5, 6, 7]"
    by (elim exE conjE) (rule that)
  from runs have "\<exists>ps. fst (draw 7 (snd (draw (7 * 2) (bg0, r0)))) = map Some ps
              \<and> mset (map index ps) = mset (map index PIECES)"
    by (rule spec)
  then obtain ps where
    ps: "fst (draw 7 (snd (draw (7 * 2) (bg0, r0)))) = map Some ps"
      "mset (map index ps) = mset (map index PIECES)"
    by (elim exE conjE) (rule that)
  from cursor have "Bag_index (fst (snd (draw 10 (bg0, r0))))
               < length (Bag_bag (fst (snd (draw 10 (bg0, r0)))))
            \<and> length (Bag_bag (fst (snd (draw 10 (bg0, r0))))) = 7"
    by (rule spec)
  then have c: "Bag_index (fst (snd (draw 10 (bg0, r0)))) < 7"
    by simp
  from new ps ids c have "Bag_new chance_example = Inr (bg0, r0)
     \<and> fst (draw 7 (snd (draw (7 * 2) (bg0, r0)))) = map Some ps
     \<and> mset (map index ps) = mset [1, 2, 3, 4, 5, 6, 7]
     \<and> Bag_index (fst (snd (draw 10 (bg0, r0)))) < 7"
    by simp
  then show ?thesis by (intro exI)
qed

section \<open>Rotation with kicks\<close>

lemma kick_loop_none:
  "\<forall>d \<in> set ds. fst (fitsAt g p (Point_x (position p) + Point_x d)
                                  (Point_y (position p) + Point_y d)) = Inr False
   \<Longrightarrow> kick_loop g p ds = (Inr False, g, p)"
  by (induction ds) (simp_all add: fitsAt_def)

lemma kick_loop_first:
  "i < length ds \<Longrightarrow>
   fst (fitsAt g p (Point_x (position p) + Point_x (ds ! i))
                   (Point_y (position p) + Point_y (ds ! i))) = Inr True \<Longrightarrow>
   \<forall>j < i. fst (fitsAt g p (Point_x (position p) + Point_x (ds ! j))
                           (Point_y (position p) + Point_y (ds ! j))) = Inr False \<Longrightarrow>
   kick_loop g p ds =
     (Inr True, g, p\<lparr>position := \<lparr>Point_x = Point_x (position p) + Point_x (ds ! i),
                                  Point_y = Point_y (position p) + Point_y (ds ! i)\<rparr>\<rparr>)"
proof (induction ds arbitrary: i)
  case Nil
  then show ?case by simp
next
  case (Cons d ds)
  show ?case
  proof (cases i)
    case 0
    with Cons.prems(2) show ?thesis by (simp add: fitsAt_def)
  next
    case (Suc k)
    with Cons.prems have k: "k < length ds"
      and t: "fst (fitsAt g p (Point_x (position p) + Point_x (ds ! k))
                   (Point_y (position p) + Point_y (ds ! k))) = Inr True"
      by simp_all
    from Cons.prems(3) Suc have
      f: "\<forall>j < k. fst (fitsAt g p (Point_x (position p) + Point_x (ds ! j))
                           (Point_y (position p) + Point_y (ds ! j))) = Inr False"
      by auto
    from Cons.prems(3) Suc have
      "fst (fitsAt g p (Point_x (position p) + Point_x d)
                       (Point_y (position p) + Point_y d)) = Inr False"
      by auto
    with Cons.IH [OF k t f] Suc show ?thesis by (simp add: fitsAt_def)
  qed
qed

lemma KICK_DELTAS_eq:
  "KICK_DELTAS = map (\<lambda>(dx, dy). \<lparr>Point_x = dx, Point_y = dy\<rparr>)
    [(0, 0), (0, - 1), (- 1, 0), (1, 0), (0, 1), (- 1, - 1), (1, - 1), (- 1, 1), (1, 1),
     (0, - 2), (- 2, 0), (2, 0), (0, 2), (- 1, - 2), (1, - 2), (- 2, - 1), (2, - 1),
     (- 2, 1), (2, 1), (- 1, 2), (1, 2), (- 2, - 2), (2, - 2), (- 2, 2), (2, 2),
     (0, - 3), (- 3, 0), (3, 0), (0, 3), (- 1, - 3), (1, - 3), (- 3, - 1), (3, - 1),
     (- 3, 1), (3, 1), (- 1, 3), (1, 3), (- 2, - 3), (2, - 3), (- 3, - 2), (3, - 2),
     (- 3, 2), (3, 2), (- 2, 3), (2, 3), (- 3, - 3), (3, - 3), (- 3, 3), (3, 3)]"
  by code_simp

lemma foldl_append_concat: "foldl (\<lambda>a b. a @ b) acc xss = acc @ concat xss"
  by (induction xss arbitrary: acc) simp_all

lemma KICK_DELTAS_facts:
  "length KICK_DELTAS = 49 \<and> distinct KICK_DELTAS
   \<and> set KICK_DELTAS = {\<lparr>Point_x = dx, Point_y = dy\<rparr> | dx dy. dx \<in> set KICK_RANGE \<and> dy \<in> set KICK_RANGE}
   \<and> sorted (map sqmag KICK_DELTAS)
   \<and> KICK_DELTAS ! 0 = \<lparr>Point_x = 0, Point_y = 0\<rparr>"
proof (intro conjI)
  show "length KICK_DELTAS = 49" by code_simp
  show "KICK_DELTAS ! 0 = \<lparr>Point_x = 0, Point_y = 0\<rparr>" by code_simp
  show "sorted (map sqmag KICK_DELTAS)" by (simp add: KICK_DELTAS_def)
  show "distinct KICK_DELTAS" by code_simp
  show "set KICK_DELTAS = {\<lparr>Point_x = dx, Point_y = dy\<rparr> | dx dy. dx \<in> set KICK_RANGE \<and> dy \<in> set KICK_RANGE}"
    by (auto simp: KICK_DELTAS_def foldl_append_concat)
qed


text \<open>Evaluation starts from the sorted table.\<close>

declare KICK_DELTAS_eq [code]

text \<open>
  C3: the table holds the 49 offsets with \<open>dx\<close> and \<open>dy\<close> from -3 to 3, each once,
  in ascending order of \<open>dx^2 + dy^2\<close>, with \<open>(0, 0)\<close> first. \<^verbatim>\<open>kickRotate(ccw)\<close>
  rotates the blocks, then tests the offsets in the order of the table at the rotated
  blocks: the first offset at which \<^verbatim>\<open>fitsAt\<close> returns true, all those before it
  having returned false, is added to the position, the blocks stay rotated and the call
  returns true; if \<^verbatim>\<open>fitsAt\<close> returns false at every offset, the call returns false
  and leaves the piece, blocks and position, exactly as it was. The grid is not changed.
\<close>

theorem kickRotate_spec:
  fixes g :: "Row list" and p :: Piece and ccw :: bool
  defines "q \<equiv> Piece_rotate ccw p"
  defines "fit \<equiv> \<lambda>d. fst (fitsAt g q (Point_x (position p) + Point_x d)
                                       (Point_y (position p) + Point_y d))"
  shows "length KICK_DELTAS = 49 \<and> distinct KICK_DELTAS
    \<and> set KICK_DELTAS = {\<lparr>Point_x = of_int dx, Point_y = of_int dy\<rparr> | dx dy.
                           dx \<in> {- 3 .. 3} \<and> dy \<in> {- 3 .. 3}}
    \<and> sorted (map (\<lambda>d. Point_x d * Point_x d + Point_y d * Point_y d) KICK_DELTAS)
    \<and> KICK_DELTAS ! 0 = \<lparr>Point_x = 0, Point_y = 0\<rparr>
    \<and> (\<forall>i < length KICK_DELTAS.
          fit (KICK_DELTAS ! i) = Inr True \<and> (\<forall>j < i. fit (KICK_DELTAS ! j) = Inr False)
          \<longrightarrow> kickRotate g p ccw =
                (Inr True, g,
                 q\<lparr>position := \<lparr>Point_x = Point_x (position p) + Point_x (KICK_DELTAS ! i),
                                  Point_y = Point_y (position p) + Point_y (KICK_DELTAS ! i)\<rparr>\<rparr>))
    \<and> ((\<forall>d \<in> set KICK_DELTAS. fit d = Inr False)
          \<longrightarrow> kickRotate g p ccw = (Inr False, g, p))"
proof -
  have pos: "position q = position p" by (simp add: q_def Piece_rotate_def)
  have range: "set KICK_RANGE = of_int ` {- 3 .. 3}"
    by (simp only: KICK_RANGE_def MAX_KICK_def set_map set_upto)
  have table: "set KICK_DELTAS = {\<lparr>Point_x = of_int dx, Point_y = of_int dy\<rparr> | dx dy.
                           dx \<in> {- 3 .. 3} \<and> dy \<in> {- 3 .. 3}}"
    using KICK_DELTAS_facts range by auto
  have order: "sorted (map (\<lambda>d. Point_x d * Point_x d + Point_y d * Point_y d) KICK_DELTAS)"
    using KICK_DELTAS_facts by (simp add: sqmag_def [abs_def])
  have first: "kickRotate g p ccw =
                (Inr True, g,
                 q\<lparr>position := \<lparr>Point_x = Point_x (position p) + Point_x (KICK_DELTAS ! i),
                                  Point_y = Point_y (position p) + Point_y (KICK_DELTAS ! i)\<rparr>\<rparr>)"
    if "i < length KICK_DELTAS" "fit (KICK_DELTAS ! i) = Inr True"
      "\<forall>j < i. fit (KICK_DELTAS ! j) = Inr False" for i
  proof -
    from that have "kick_loop g q KICK_DELTAS =
       (Inr True, g, q\<lparr>position := \<lparr>Point_x = Point_x (position q) + Point_x (KICK_DELTAS ! i),
                                  Point_y = Point_y (position q) + Point_y (KICK_DELTAS ! i)\<rparr>\<rparr>)"
      by (intro kick_loop_first) (simp_all add: fit_def pos)
    then show ?thesis by (simp add: kickRotate_def q_def [symmetric] pos)
  qed
  have none: "kickRotate g p ccw = (Inr False, g, p)"
    if "\<forall>d \<in> set KICK_DELTAS. fit d = Inr False"
  proof -
    from that have "kick_loop g q KICK_DELTAS = (Inr False, g, q)"
      by (intro kick_loop_none) (simp add: fit_def pos)
    then show ?thesis
      by (simp add: kickRotate_def q_def [symmetric]) (simp add: q_def Piece_rotate_inverse)
  qed
  from KICK_DELTAS_facts table order first none show ?thesis by blast
qed


text \<open>
  The upright I piece against the left wall of the empty grid turns flat with a block in
  column -1; the offsets \<open>(0, 0)\<close>, \<open>(0, -1)\<close> and \<open>(-1, 0)\<close> do not fit, the fourth,
  \<open>(1, 0)\<close>, does, and the piece moves one column to the right. On the grid with every
  cell occupied no offset fits the O piece, and the call leaves it as it was.
\<close>

theorem kickRotate_spec_witness:
  "kickRotate initial_grid piece_I_at_wall True =
     (Inr True, initial_grid,
      (Piece_rotate True piece_I_at_wall)\<lparr>position := \<lparr>Point_x = 1, Point_y = 5\<rparr>\<rparr>)
   \<and> blocks (Piece_rotate True piece_I_at_wall) =
       [\<lparr>Point_x = 2, Point_y = 1\<rparr>, \<lparr>Point_x = 1, Point_y = 1\<rparr>,
        \<lparr>Point_x = 0, Point_y = 1\<rparr>, \<lparr>Point_x = - 1, Point_y = 1\<rparr>]
   \<and> kickRotate full_grid piece_O_mid True = (Inr False, full_grid, piece_O_mid)"
proof -
  let ?q = "Piece_rotate True piece_I_at_wall"
  let ?fit = "\<lambda>d. fst (fitsAt initial_grid ?q (Point_x (position piece_I_at_wall) + Point_x d)
                                       (Point_y (position piece_I_at_wall) + Point_y d))"
  have i: "3 < length KICK_DELTAS" by code_simp
  have d: "KICK_DELTAS ! 3 = \<lparr>Point_x = 1, Point_y = 0\<rparr>" by code_simp
  have pos: "position piece_I_at_wall = \<lparr>Point_x = 0, Point_y = 5\<rparr>"
    by (simp add: piece_I_at_wall_def)
  have t: "?fit (KICK_DELTAS ! 3) = Inr True" by code_simp
  have "list_all (\<lambda>j. ?fit (KICK_DELTAS ! j) = Inr False) [0 ..< 3]" by code_simp
  then have f: "\<forall>j < 3. ?fit (KICK_DELTAS ! j) = Inr False"
    by (simp add: list_all_iff)
  have b: "blocks ?q =
       [\<lparr>Point_x = 2, Point_y = 1\<rparr>, \<lparr>Point_x = 1, Point_y = 1\<rparr>,
        \<lparr>Point_x = 0, Point_y = 1\<rparr>, \<lparr>Point_x = - 1, Point_y = 1\<rparr>]"
    by code_simp
  let ?r = "Piece_rotate True piece_O_mid"
  let ?nofit = "\<lambda>d. fst (fitsAt full_grid ?r (Point_x (position piece_O_mid) + Point_x d)
                                       (Point_y (position piece_O_mid) + Point_y d))"
  have "list_all (\<lambda>d. ?nofit d = Inr False) KICK_DELTAS" by code_simp
  then have n: "\<forall>d \<in> set KICK_DELTAS. ?nofit d = Inr False"
    by (simp add: list_all_iff)
  note wall = kickRotate_spec [where g = initial_grid and p = piece_I_at_wall and ccw = True]
  note mid = kickRotate_spec [where g = full_grid and p = piece_O_mid and ccw = True]
  from wall i t f have "kickRotate initial_grid piece_I_at_wall True =
     (Inr True, initial_grid,
      ?q\<lparr>position := \<lparr>Point_x = Point_x (position piece_I_at_wall) + Point_x (KICK_DELTAS ! 3),
                        Point_y = Point_y (position piece_I_at_wall) + Point_y (KICK_DELTAS ! 3)\<rparr>\<rparr>)"
    by blast
  then have k1: "kickRotate initial_grid piece_I_at_wall True =
     (Inr True, initial_grid, ?q\<lparr>position := \<lparr>Point_x = 1, Point_y = 5\<rparr>\<rparr>)"
    by (simp add: d pos)
  from mid n have k2: "kickRotate full_grid piece_O_mid True = (Inr False, full_grid, piece_O_mid)"
    by blast
  from k1 b k2 show ?thesis by simp
qed

section \<open>Committing a piece to the grid\<close>

lemma grid_row_update:
  "grid_row (g[n := r]) k =
     (if array_index k = Some n \<and> n < length g then Some r else grid_row g k)"
  by (auto simp: grid_row_def split: option.splits)

lemma grid_row_update_None: "grid_row (g[n := r]) k = None \<longleftrightarrow> grid_row g k = None"
  by (auto simp: grid_row_def split: option.splits)

lemma grid_row_nat:
  assumes "grid_row g k = Some row"
  shows "k = of_nat (nat \<lfloor>k\<rfloor>) \<and> nat \<lfloor>k\<rfloor> < length g \<and> row = g ! nat \<lfloor>k\<rfloor>
    \<and> array_index k = Some (nat \<lfloor>k\<rfloor>)"
proof -
  from assms obtain n where n: "k = of_nat n" "n < length g" "n < 2 ^ 32 - 1" "row = g ! n"
    by (auto simp: grid_row_Some)
  then have "nat \<lfloor>k\<rfloor> = n" by simp
  with n show ?thesis by (simp add: array_index_of_nat)
qed

lemma cell_update:
  assumes "grid_row g k0 = Some row"
  shows "cell (g[nat \<lfloor>k0\<rfloor> := row_set row c0 v]) r c =
     (if r = k0 \<and> c = c0 then Some v else cell g r c)"
proof -
  let ?n = "nat \<lfloor>k0\<rfloor>"
  from grid_row_nat [OF assms] have k0: "k0 = of_nat ?n" "?n < length g" "row = g ! ?n"
    "array_index k0 = Some ?n" by simp_all
  show ?thesis
  proof (cases "array_index r = Some ?n")
    case True
    then have "r = of_nat ?n" by (simp add: array_index_Some)
    with k0(1) have "r = k0" by simp
    with True k0 show ?thesis
      by (simp add: cell_def grid_row_update row_set_def grid_row_def)
  next
    case False
    with k0(4) have "r \<noteq> k0" by auto
    with False show ?thesis by (simp add: cell_def grid_row_update)
  qed
qed

lemma place_blocks_cells:
  assumes "\<forall>b \<in> set bs. grid_row g (Point_y b + Point_y pos) \<noteq> None"
  shows "\<exists>g'. place_blocks g bs pos i = (Inr (), g') \<and> length g' = length g
      \<and> (\<forall>r c. cell g' r c =
            (if \<exists>b \<in> set bs. r = Point_y b + Point_y pos \<and> c = Point_x b + Point_x pos
             then Some i else cell g r c))"
  using assms
proof (induction bs arbitrary: g)
  case Nil
  then show ?case by simp
next
  case (Cons b bs)
  let ?k = "Point_y b + Point_y pos" and ?c = "Point_x b + Point_x pos"
  from Cons.prems obtain row where row: "grid_row g ?k = Some row" by auto
  let ?g = "g[nat \<lfloor>?k\<rfloor> := row_set row ?c i]"
  from Cons.prems have "\<forall>b \<in> set bs. grid_row ?g (Point_y b + Point_y pos) \<noteq> None"
    by (simp add: grid_row_update_None)
  from Cons.IH [OF this] obtain g' where g':
    "place_blocks ?g bs pos i = (Inr (), g')" "length g' = length ?g"
    "\<forall>r c. cell g' r c =
            (if \<exists>b \<in> set bs. r = Point_y b + Point_y pos \<and> c = Point_x b + Point_x pos
             then Some i else cell ?g r c)"
    by blast
  have "cell g' r c =
            (if \<exists>b' \<in> set (b # bs). r = Point_y b' + Point_y pos \<and> c = Point_x b' + Point_x pos
             then Some i else cell g r c)" for r c
    using g'(3) cell_update [OF row, of ?c i r c] by auto
  with g'(1,2) row show ?case by simp
qed

lemma place_blocks_error:
  "\<exists>b \<in> set bs. grid_row g (Point_y b + Point_y pos) = None \<Longrightarrow>
     fst (place_blocks g bs pos i) = Inl TypeError"
proof (induction bs arbitrary: g)
  case Nil
  then show ?case by simp
next
  case (Cons b bs)
  show ?case
  proof (cases "grid_row g (Point_y b + Point_y pos)")
    case None
    then show ?thesis by simp
  next
    case (Some row)
    with Cons.prems have "\<exists>b \<in> set bs. grid_row g (Point_y b + Point_y pos) = None"
      by auto
    then have "\<exists>b' \<in> set bs. grid_row (g[nat \<lfloor>Point_y b + Point_y pos\<rfloor> :=
         row_set row (Point_x b + Point_x pos) i]) (Point_y b' + Point_y pos) = None"
      by (simp add: grid_row_update_None)
    from Cons.IH [OF this] Some show ?thesis by simp
  qed
qed

lemma place_blocks_widths:
  assumes "\<forall>b \<in> set bs. grid_row g (Point_y b + Point_y pos) \<noteq> None"
    and "\<forall>b \<in> set bs. \<exists>n < w. array_index (Point_x b + Point_x pos) = Some n"
    and "\<forall>row \<in> set g. len row = w"
  shows "\<forall>row \<in> set (snd (place_blocks g bs pos i)). len row = w"
  using assms
proof (induction bs arbitrary: g)
  case Nil
  then show ?case by simp
next
  case (Cons b bs)
  let ?k = "Point_y b + Point_y pos" and ?c = "Point_x b + Point_x pos"
  from Cons.prems(1) obtain row where row: "grid_row g ?k = Some row" by auto
  let ?g = "g[nat \<lfloor>?k\<rfloor> := row_set row ?c i]"
  from grid_row_nat [OF row] have "row \<in> set g" by (metis nth_mem)
  with Cons.prems(3) have "len row = w" by simp
  moreover from Cons.prems(2) obtain n where "n < w" "array_index ?c = Some n" by auto
  ultimately have "len (row_set row ?c i) = w" by (simp add: row_set_def)
  with Cons.prems(3) have w: "\<forall>row \<in> set ?g. len row = w"
    by (auto dest: set_update_subset_insert [THEN subsetD])
  from Cons.prems(1) have "\<forall>b \<in> set bs. grid_row ?g (Point_y b + Point_y pos) \<noteq> None"
    by (simp add: grid_row_update_None)
  moreover from Cons.prems(2)
  have "\<forall>b \<in> set bs. \<exists>n < w. array_index (Point_x b + Point_x pos) = Some n" by simp
  ultimately have "\<forall>row \<in> set (snd (place_blocks ?g bs pos i)). len row = w"
    using w by (rule Cons.IH)
  with row show ?case by simp
qed


lemma rows_exist:
  assumes "length g = GRID_HEIGHT"
    and "\<forall>b \<in> set bs. Point_y b + y \<in> \<int> \<and> 0 \<le> Point_y b + y \<and> Point_y b + y < of_nat GRID_HEIGHT"
  shows "\<forall>b \<in> set bs. grid_row g (Point_y b + y) \<noteq> None"
proof
  fix b assume "b \<in> set bs"
  with assms have "grid_row g (Point_y b + y) = Some (g ! nat \<lfloor>Point_y b + y\<rfloor>)"
    by (intro grid_row_int) simp_all
  then show "grid_row g (Point_y b + y) \<noteq> None" by simp
qed

lemma Point_update_y: "(pt :: Point)\<lparr>Point_y := v\<rparr> = \<lparr>Point_x = Point_x pt, Point_y = v\<rparr>"
  by (cases pt) simp

lemma rows_above:
  "\<exists>b \<in> set bs. Point_y b + y < 0 \<Longrightarrow> \<exists>b \<in> set bs. grid_row g (Point_y b + y) = None"
  using grid_row_neg by blast

lemma columns_exist:
  assumes "\<forall>b \<in> set bs. Point_x b + x \<in> \<int> \<and> 0 \<le> Point_x b + x \<and> Point_x b + x < of_nat GRID_WIDTH"
  shows "\<forall>b \<in> set bs. \<exists>n < GRID_WIDTH. array_index (Point_x b + x) = Some n"
proof
  fix b assume "b \<in> set bs"
  with assms have c: "Point_x b + x \<in> \<int>" "0 \<le> Point_x b + x" "Point_x b + x < of_nat GRID_WIDTH"
    by simp_all
  from c(3) have "Point_x b + x < 2 ^ 32 - 1" by (simp add: GRID_WIDTH_def)
  with c(1,2) have "array_index (Point_x b + x) = Some (nat \<lfloor>Point_x b + x\<rfloor>)"
    by (rule array_index_int)
  moreover from c have "nat \<lfloor>Point_x b + x\<rfloor> < GRID_WIDTH" by (auto simp: Ints_def)
  ultimately show "\<exists>n < GRID_WIDTH. array_index (Point_x b + x) = Some n" by blast
qed

text \<open>
  C5, as the code has it. If \<^verbatim>\<open>fitsAt(position.x, position.y + 1)\<close> returns true,
  \<^verbatim>\<open>moveDown\<close> adds 1 to \<open>position.y\<close>, leaves the grid as it is and returns false
  (not locked). If it returns false and every block's absolute row is a row of the
  grid, an integer from 0 to \<open>height - 1\<close>, the piece is left as it is, the cell at each
  block's absolute coordinates holds the identity of the piece, every other cell holds
  what it held, and the call returns true (locked).
\<close>

theorem moveDown_spec:
  fixes g :: "Row list" and p :: Piece
  defines "x \<equiv> Point_x (position p)" and "y \<equiv> Point_y (position p)"
  shows
   "(fst (fitsAt g p x (y + 1)) = Inr True \<longrightarrow>
       moveDown g p = (Inr False, g, p\<lparr>position := \<lparr>Point_x = x, Point_y = y + 1\<rparr>\<rparr>))
    \<and> (fst (fitsAt g p x (y + 1)) = Inr False \<and> length g = GRID_HEIGHT
        \<and> (\<forall>b \<in> set (blocks p).
              Point_y b + y \<in> \<int> \<and> 0 \<le> Point_y b + y \<and> Point_y b + y < of_nat GRID_HEIGHT) \<longrightarrow>
       (\<exists>g'. moveDown g p = (Inr True, g', p) \<and> length g' = GRID_HEIGHT
          \<and> (\<forall>b \<in> set (blocks p). cell g' (Point_y b + y) (Point_x b + x) = Some (index p))
          \<and> (\<forall>r c. (\<forall>b \<in> set (blocks p). \<not> (r = Point_y b + y \<and> c = Point_x b + x))
                 \<longrightarrow> cell g' r c = cell g r c)))"
proof (intro conjI impI)
  assume "fst (fitsAt g p x (y + 1)) = Inr True"
  then show "moveDown g p = (Inr False, g, p\<lparr>position := \<lparr>Point_x = x, Point_y = y + 1\<rparr>\<rparr>)"
    by (simp add: moveDown_def fitsAt_def x_def y_def Point_update_y)
next
  assume a: "fst (fitsAt g p x (y + 1)) = Inr False \<and> length g = GRID_HEIGHT
        \<and> (\<forall>b \<in> set (blocks p).
              Point_y b + y \<in> \<int> \<and> 0 \<le> Point_y b + y \<and> Point_y b + y < of_nat GRID_HEIGHT)"
  then have "\<forall>b \<in> set (blocks p). grid_row g (Point_y b + Point_y (position p)) \<noteq> None"
    unfolding y_def by (intro rows_exist) simp_all
  from place_blocks_cells [OF this, of "index p"] obtain g' where g':
    "place_blocks g (blocks p) (position p) (index p) = (Inr (), g')" "length g' = length g"
    "\<forall>r c. cell g' r c =
       (if \<exists>b \<in> set (blocks p). r = Point_y b + y \<and> c = Point_x b + x
        then Some (index p) else cell g r c)"
    unfolding x_def y_def by blast
  from a g'(1) have "moveDown g p = (Inr True, g', p)"
    by (simp add: moveDown_def fitsAt_def place_def x_def y_def)
  moreover from a g'(2) have "length g' = GRID_HEIGHT" by simp
  moreover from g'(3)
  have "\<forall>b \<in> set (blocks p). cell g' (Point_y b + y) (Point_x b + x) = Some (index p)"
    by auto
  moreover from g'(3)
  have "\<forall>r c. (\<forall>b \<in> set (blocks p). \<not> (r = Point_y b + y \<and> c = Point_x b + x))
                 \<longrightarrow> cell g' r c = cell g r c"
    by auto
  ultimately show "\<exists>g'. moveDown g p = (Inr True, g', p) \<and> length g' = GRID_HEIGHT
          \<and> (\<forall>b \<in> set (blocks p). cell g' (Point_y b + y) (Point_x b + x) = Some (index p))
          \<and> (\<forall>r c. (\<forall>b \<in> set (blocks p). \<not> (r = Point_y b + y \<and> c = Point_x b + x))
                 \<longrightarrow> cell g' r c = cell g r c)"
    by blast
qed

text \<open>
  C5 as stated fails where a block is above the grid. The O piece at its spawn position
  \<open>(4, -2)\<close> over a grid whose cell in row 0, column 4 is occupied cannot move down, and
  \<^verbatim>\<open>moveDown\<close> does not return "locked": writing the block in row -2 throws.
\<close>

theorem moveDown_locked_counterexample:
  "fst (fitsAt grid_topped piece_O_spawned 4 (- 2 + 1)) = Inr False
   \<and> fst (moveDown grid_topped piece_O_spawned) = Inl TypeError
   \<and> fst (moveDown grid_topped piece_O_spawned) \<noteq> Inr True"
proof -
  have "fst (fitsAt grid_topped piece_O_spawned 4 (- 2 + 1)) = Inr False" by code_simp
  moreover have "fst (moveDown grid_topped piece_O_spawned) = Inl TypeError" by code_simp
  ultimately show ?thesis by simp
qed


text \<open>
  On the empty grid, the O piece at \<open>(4, 3)\<close> moves down; at \<open>(4, 18)\<close> it locks, the
  cell in row 19, column 5 then holds its identity 4, and the cell in row 17, column 4,
  which it does not cover, is still empty.
\<close>

theorem moveDown_spec_witness:
  "moveDown initial_grid piece_O_high =
     (Inr False, initial_grid, piece_O_high\<lparr>position := \<lparr>Point_x = 4, Point_y = 3 + 1\<rparr>\<rparr>)
   \<and> fst (moveDown initial_grid piece_O_low) = Inr True
   \<and> snd (snd (moveDown initial_grid piece_O_low)) = piece_O_low
   \<and> cell (fst (snd (moveDown initial_grid piece_O_low))) (1 + 18) (1 + 4) = Some 4
   \<and> cell (fst (snd (moveDown initial_grid piece_O_low))) 17 4 = Some 0"
proof -
  have hi_pos: "position piece_O_high = \<lparr>Point_x = 4, Point_y = 3\<rparr>"
    by (simp add: piece_O_high_def)
  have "fst (fitsAt initial_grid piece_O_high (Point_x (position piece_O_high))
          (Point_y (position piece_O_high) + 1)) = Inr True"
    by code_simp
  with moveDown_spec [where g = initial_grid and p = piece_O_high]
  have "moveDown initial_grid piece_O_high =
     (Inr False, initial_grid,
      piece_O_high\<lparr>position := \<lparr>Point_x = Point_x (position piece_O_high),
                                 Point_y = Point_y (position piece_O_high) + 1\<rparr>\<rparr>)"
    by blast
  then have high: "moveDown initial_grid piece_O_high =
     (Inr False, initial_grid, piece_O_high\<lparr>position := \<lparr>Point_x = 4, Point_y = 3 + 1\<rparr>\<rparr>)"
    by (simp add: hi_pos)
  have lo_pos: "position piece_O_low = \<lparr>Point_x = 4, Point_y = 18\<rparr>"
    and lo_blocks: "blocks piece_O_low =
        [\<lparr>Point_x = 0, Point_y = 0\<rparr>, \<lparr>Point_x = 1, Point_y = 0\<rparr>,
         \<lparr>Point_x = 0, Point_y = 1\<rparr>, \<lparr>Point_x = 1, Point_y = 1\<rparr>]"
    and lo_index: "index piece_O_low = 4"
    by (simp_all add: piece_O_low_def PIECES_eq)
  have f: "fst (fitsAt initial_grid piece_O_low (Point_x (position piece_O_low))
          (Point_y (position piece_O_low) + 1)) = Inr False"
    by code_simp
  have len: "length initial_grid = GRID_HEIGHT"
    by (simp add: initial_grid_def)
  have rows: "\<forall>b \<in> set (blocks piece_O_low).
      Point_y b + Point_y (position piece_O_low) \<in> \<int> \<and> 0 \<le> Point_y b + Point_y (position piece_O_low)
      \<and> Point_y b + Point_y (position piece_O_low) < of_nat GRID_HEIGHT"
    by (simp add: lo_pos lo_blocks GRID_HEIGHT_def)
  from moveDown_spec [where g = initial_grid and p = piece_O_low] f len rows
  obtain g' where g': "moveDown initial_grid piece_O_low = (Inr True, g', piece_O_low)"
    "\<forall>b \<in> set (blocks piece_O_low).
       cell g' (Point_y b + Point_y (position piece_O_low))
               (Point_x b + Point_x (position piece_O_low)) = Some (index piece_O_low)"
    "\<forall>r c. (\<forall>b \<in> set (blocks piece_O_low).
              \<not> (r = Point_y b + Point_y (position piece_O_low)
                 \<and> c = Point_x b + Point_x (position piece_O_low)))
           \<longrightarrow> cell g' r c = cell initial_grid r c"
    by blast
  from g'(2) have written: "cell g' (1 + 18) (1 + 4) = Some 4"
    by (simp add: lo_pos lo_blocks lo_index)
  from g'(3) have "(\<forall>b \<in> set (blocks piece_O_low).
              \<not> (17 = Point_y b + Point_y (position piece_O_low)
                 \<and> 4 = Point_x b + Point_x (position piece_O_low)))
           \<longrightarrow> cell g' 17 4 = cell initial_grid 17 4"
    by blast
  then have "cell g' 17 4 = cell initial_grid 17 4"
    by (simp add: lo_pos lo_blocks)
  moreover have "cell initial_grid 17 4 = Some 0" by code_simp
  ultimately have kept: "cell g' 17 4 = Some 0" by simp
  from high g'(1) written kept show ?thesis by simp
qed

text \<open>
  C9: if a block has an absolute row below 0 when the piece is committed, the commit
  throws (the row read from the grid is \<^verbatim>\<open>undefined\<close>), and so does \<^verbatim>\<open>moveDown\<close> when
  it takes its commit branch. If every block's absolute row is an integer in
  \<open>[0, height)\<close> of a grid of \<open>height\<close> rows, the commit throws nothing, \<^verbatim>\<open>moveDown\<close>
  in its commit branch returns true, and every write goes to a row that exists: the grid
  keeps its \<open>height\<close> rows. The columns written are those \<^verbatim>\<open>fitsAt\<close> has admitted for
  the piece: where they are integers in \<open>[0, width)\<close>, the rows keep their length too.
\<close>

theorem commit_rows:
  fixes g :: "Row list" and p :: Piece
  defines "x \<equiv> Point_x (position p)" and "y \<equiv> Point_y (position p)"
  shows
   "((\<exists>b \<in> set (blocks p). Point_y b + y < 0) \<longrightarrow>
        fst (place g p) = Inl TypeError
        \<and> (fst (fitsAt g p x (y + 1)) = Inr False \<longrightarrow> fst (moveDown g p) = Inl TypeError))
    \<and> (length g = GRID_HEIGHT
        \<and> (\<forall>b \<in> set (blocks p).
              Point_y b + y \<in> \<int> \<and> 0 \<le> Point_y b + y \<and> Point_y b + y < of_nat GRID_HEIGHT) \<longrightarrow>
        (\<exists>g'. place g p = (Inr (), g', p) \<and> length g' = GRID_HEIGHT
           \<and> (fst (fitsAt g p x (y + 1)) = Inr False \<longrightarrow> moveDown g p = (Inr True, g', p))
           \<and> ((\<forall>row \<in> set g. len row = GRID_WIDTH)
               \<and> (\<forall>b \<in> set (blocks p).
                    Point_x b + x \<in> \<int> \<and> 0 \<le> Point_x b + x \<and> Point_x b + x < of_nat GRID_WIDTH)
               \<longrightarrow> (\<forall>row \<in> set g'. len row = GRID_WIDTH))))"
proof (intro conjI impI)
  assume "\<exists>b \<in> set (blocks p). Point_y b + y < 0"
  then have "\<exists>b \<in> set (blocks p). grid_row g (Point_y b + Point_y (position p)) = None"
    unfolding y_def by (rule rows_above)
  then have e: "fst (place_blocks g (blocks p) (position p) (index p)) = Inl TypeError"
    by (rule place_blocks_error)
  then show "fst (place g p) = Inl TypeError"
    by (simp add: place_def case_prod_beta)
  assume "fst (fitsAt g p x (y + 1)) = Inr False"
  with e show "fst (moveDown g p) = Inl TypeError"
    by (simp add: moveDown_def fitsAt_def place_def x_def y_def case_prod_beta)
next
  assume a: "length g = GRID_HEIGHT
        \<and> (\<forall>b \<in> set (blocks p).
              Point_y b + y \<in> \<int> \<and> 0 \<le> Point_y b + y \<and> Point_y b + y < of_nat GRID_HEIGHT)"
  then have rows: "\<forall>b \<in> set (blocks p). grid_row g (Point_y b + Point_y (position p)) \<noteq> None"
    unfolding y_def by (intro rows_exist) simp_all
  from place_blocks_cells [OF this, of "index p"] obtain g' where g':
    "place_blocks g (blocks p) (position p) (index p) = (Inr (), g')" "length g' = length g"
    by blast
  have widths: "\<forall>row \<in> set g'. len row = GRID_WIDTH"
    if "(\<forall>row \<in> set g. len row = GRID_WIDTH)
               \<and> (\<forall>b \<in> set (blocks p).
                    Point_x b + x \<in> \<int> \<and> 0 \<le> Point_x b + x \<and> Point_x b + x < of_nat GRID_WIDTH)"
  proof -
    from that have "\<forall>b \<in> set (blocks p). \<exists>n < GRID_WIDTH.
        array_index (Point_x b + Point_x (position p)) = Some n"
      unfolding x_def by (intro columns_exist) simp
    with rows have "\<forall>row \<in> set (snd (place_blocks g (blocks p) (position p) (index p))).
        len row = GRID_WIDTH"
      using that by (intro place_blocks_widths) simp_all
    with g'(1) show ?thesis by simp
  qed
  have "place g p = (Inr (), g', p)"
    using g'(1) by (simp add: place_def)
  moreover have "length g' = GRID_HEIGHT"
    using a g'(2) by simp
  moreover have "fst (fitsAt g p x (y + 1)) = Inr False \<longrightarrow> moveDown g p = (Inr True, g', p)"
    using g'(1) by (simp add: moveDown_def fitsAt_def place_def x_def y_def)
  ultimately show "\<exists>g'. place g p = (Inr (), g', p) \<and> length g' = GRID_HEIGHT
           \<and> (fst (fitsAt g p x (y + 1)) = Inr False \<longrightarrow> moveDown g p = (Inr True, g', p))
           \<and> ((\<forall>row \<in> set g. len row = GRID_WIDTH)
               \<and> (\<forall>b \<in> set (blocks p).
                    Point_x b + x \<in> \<int> \<and> 0 \<le> Point_x b + x \<and> Point_x b + x < of_nat GRID_WIDTH)
               \<longrightarrow> (\<forall>row \<in> set g'. len row = GRID_WIDTH))"
    using widths by blast
qed


text \<open>
  The session with the topped grid: \<^verbatim>\<open>spawn\<close> puts the O piece at \<open>(4, -2)\<close>, and its
  first \<^verbatim>\<open>moveDown\<close> throws. On the empty grid the commit of the O piece at
  \<open>(4, 18)\<close> throws nothing and leaves 20 rows of length 10.
\<close>

theorem commit_rows_witness:
  "fst (spawn game_topped) = Inr ()
   \<and> currentPiece (snd (spawn game_topped)) = Some piece_O_spawned
   \<and> fst (moveDown grid_topped piece_O_spawned) = Inl TypeError
   \<and> fst (place initial_grid piece_O_low) = Inr ()
   \<and> map len (fst (snd (place initial_grid piece_O_low))) = replicate 20 10"
proof -
  have s1: "fst (spawn game_topped) = Inr ()" by code_simp
  have s2: "currentPiece (snd (spawn game_topped)) = Some piece_O_spawned" by code_simp
  have sp_pos: "position piece_O_spawned = \<lparr>Point_x = 4, Point_y = - 2\<rparr>"
    and sp_blocks: "blocks piece_O_spawned =
        [\<lparr>Point_x = 0, Point_y = 0\<rparr>, \<lparr>Point_x = 1, Point_y = 0\<rparr>,
         \<lparr>Point_x = 0, Point_y = 1\<rparr>, \<lparr>Point_x = 1, Point_y = 1\<rparr>]"
    by (simp_all add: piece_O_spawned_def PIECES_eq)
  have above: "\<exists>b \<in> set (blocks piece_O_spawned). Point_y b + Point_y (position piece_O_spawned) < 0"
    by (simp add: sp_pos sp_blocks)
  have nofit: "fst (fitsAt grid_topped piece_O_spawned (Point_x (position piece_O_spawned))
          (Point_y (position piece_O_spawned) + 1)) = Inr False"
    by code_simp
  from commit_rows [where g = grid_topped and p = piece_O_spawned] above nofit
  have err: "fst (moveDown grid_topped piece_O_spawned) = Inl TypeError"
    by blast
  have lo_pos: "position piece_O_low = \<lparr>Point_x = 4, Point_y = 18\<rparr>"
    and lo_blocks: "blocks piece_O_low =
        [\<lparr>Point_x = 0, Point_y = 0\<rparr>, \<lparr>Point_x = 1, Point_y = 0\<rparr>,
         \<lparr>Point_x = 0, Point_y = 1\<rparr>, \<lparr>Point_x = 1, Point_y = 1\<rparr>]"
    by (simp_all add: piece_O_low_def PIECES_eq)
  have len: "length initial_grid = GRID_HEIGHT"
    by (simp add: initial_grid_def)
  have rows: "\<forall>b \<in> set (blocks piece_O_low).
      Point_y b + Point_y (position piece_O_low) \<in> \<int> \<and> 0 \<le> Point_y b + Point_y (position piece_O_low)
      \<and> Point_y b + Point_y (position piece_O_low) < of_nat GRID_HEIGHT"
    by (simp add: lo_pos lo_blocks GRID_HEIGHT_def)
  have cols: "\<forall>b \<in> set (blocks piece_O_low).
      Point_x b + Point_x (position piece_O_low) \<in> \<int> \<and> 0 \<le> Point_x b + Point_x (position piece_O_low)
      \<and> Point_x b + Point_x (position piece_O_low) < of_nat GRID_WIDTH"
    by (simp add: lo_pos lo_blocks GRID_WIDTH_def)
  have "len newRow = GRID_WIDTH" by code_simp
  then have widths: "\<forall>row \<in> set initial_grid. len row = GRID_WIDTH"
    by (simp add: initial_grid_def)
  from commit_rows [where g = initial_grid and p = piece_O_low] len rows cols widths
  obtain g' where g': "place initial_grid piece_O_low = (Inr (), g', piece_O_low)"
    "length g' = GRID_HEIGHT" "\<forall>row \<in> set g'. len row = GRID_WIDTH"
    by blast
  from g'(2,3) have "map len g' = replicate 20 10"
    by (intro replicate_eqI) (auto simp: GRID_HEIGHT_def GRID_WIDTH_def)
  with g'(1) s1 s2 err show ?thesis by simp
qed

section \<open>Integer coordinates\<close>

lemma isInt_Ints: "isInt r \<Longrightarrow> r \<in> \<int>"
  by (metis Ints_of_int isInt_def or0_def)

lemma Point_rotate_integral:
  assumes "isInt (Point_x c * 2)" "isInt (Point_y c * 2)" "Point_x c - Point_y c \<in> \<int>"
    and "integral b"
  shows "integral (Point_rotate ccw c b)"
proof -
  from assms(2) have "Point_y c * 2 \<in> \<int>" by (rule isInt_Ints)
  with assms(3) have "(Point_x c - Point_y c) + Point_y c * 2 \<in> \<int>" by (rule Ints_add)
  then have sum: "Point_x c + Point_y c \<in> \<int>" by (simp add: algebra_simps)
  from assms(4) have b: "Point_x b \<in> \<int>" "Point_y b \<in> \<int>" by (simp_all add: integral_def)
  have t: "Point_rotate True c b =
      \<lparr>Point_x = Point_x c + Point_y c - Point_y b,
       Point_y = Point_x b - (Point_x c - Point_y c)\<rparr>"
    by (simp add: Point_rotate_def)
  have f: "Point_rotate False c b =
      \<lparr>Point_x = Point_y b + (Point_x c - Point_y c),
       Point_y = Point_x c + Point_y c - Point_x b\<rparr>"
    by (simp add: Point_rotate_def)
  have "integral (Point_rotate True c b)"
    unfolding t integral_def using sum assms(3) b by (simp add: Ints_add Ints_diff)
  moreover have "integral (Point_rotate False c b)"
    unfolding f integral_def using sum assms(3) b by (simp add: Ints_add Ints_diff)
  ultimately show ?thesis by (cases ccw) simp_all
qed

lemma Piece_rotate_on_lattice: "on_lattice p \<Longrightarrow> on_lattice (Piece_rotate ccw p)"
  by (auto simp: on_lattice_def Piece_rotate_def intro: Point_rotate_integral)

lemma kick_loop_on_lattice: "on_lattice p \<Longrightarrow> on_lattice (snd (snd (kick_loop g p ds)))"
proof (induction ds)
  case Nil
  then show ?case by simp
next
  case (Cons d ds)
  then show ?case
    by (cases "fitsAt_blocks g (blocks p) (Point_x (position p) + Point_x d)
                 (Point_y (position p) + Point_y d)")
       (auto simp: fitsAt_def on_lattice_def split: bool.splits)
qed

lemma kickRotate_on_lattice:
  assumes "on_lattice p"
  shows "on_lattice (snd (snd (kickRotate g p ccw)))"
proof -
  let ?k = "kick_loop g (Piece_rotate ccw p) KICK_DELTAS"
  from assms have "on_lattice (Piece_rotate ccw p)" by (rule Piece_rotate_on_lattice)
  then have k: "on_lattice (snd (snd ?k))" by (rule kick_loop_on_lattice)
  then have "on_lattice (Piece_rotate (\<not> ccw) (snd (snd ?k)))" by (rule Piece_rotate_on_lattice)
  with k show ?thesis
    by (cases ?k rule: prod_cases3) (auto simp: kickRotate_def split: sum.splits bool.splits)
qed

lemma PIECES_on_lattice: "list_all (\<lambda>p. list_all (\<lambda>b. isInt (Point_x b) \<and> isInt (Point_y b)) (blocks p)
     \<and> isInt (Point_x (centroid p) * 2) \<and> isInt (Point_y (centroid p) * 2)
     \<and> isInt (Point_x (centroid p) - Point_y (centroid p))) PIECES"
  by code_simp

text \<open>
  C10: every piece of the catalog has integer block coordinates and a centroid whose
  coordinates differ by an integer (and are multiples of 1/2, as the constructor
  asserts). For a piece of which this holds, a rotation about the centroid, in either
  direction, maps each block to integer coordinates, and the property holds again of the
  piece after \<^verbatim>\<open>rotate\<close> and after \<^verbatim>\<open>kickRotate\<close>, on any grid and whatever the call
  returns.
\<close>

theorem catalog_on_lattice:
  "(\<forall>p \<in> set PIECES. on_lattice p)
   \<and> (on_lattice q \<longrightarrow>
        (\<forall>ccw. \<forall>b \<in> set (blocks q). integral (Point_rotate ccw (centroid q) b))
        \<and> (\<forall>ccw. on_lattice (Piece_rotate ccw q))
        \<and> (\<forall>g ccw. on_lattice (snd (snd (kickRotate g q ccw)))))"
proof (intro conjI impI allI ballI)
  fix p assume "p \<in> set PIECES"
  with PIECES_on_lattice show "on_lattice p"
    by (auto simp: list_all_iff on_lattice_def integral_def isInt_Ints)
next
  fix ccw b assume "on_lattice q" "b \<in> set (blocks q)"
  then show "integral (Point_rotate ccw (centroid q) b)"
    by (auto simp: on_lattice_def intro: Point_rotate_integral)
next
  fix ccw assume "on_lattice q"
  then show "on_lattice (Piece_rotate ccw q)" by (rule Piece_rotate_on_lattice)
next
  fix g ccw assume "on_lattice q"
  then show "on_lattice (snd (snd (kickRotate g q ccw)))" by (rule kickRotate_on_lattice)
qed

text \<open>
  The I piece, whose centroid is \<open>(1/2, 3/2)\<close>: its lowest block \<open>(0, 3)\<close> turns to
  \<open>(-1, 1)\<close>, and the piece kicked off the left wall is on the lattice.
\<close>

theorem catalog_on_lattice_witness:
  "on_lattice (PIECES ! 0)
   \<and> centroid (PIECES ! 0) = \<lparr>Point_x = 1 / 2, Point_y = 3 / 2\<rparr>
   \<and> Point_rotate True (centroid (PIECES ! 0)) \<lparr>Point_x = 0, Point_y = 3\<rparr>
       = \<lparr>Point_x = - 1, Point_y = 1\<rparr>
   \<and> integral (Point_rotate True (centroid (PIECES ! 0)) \<lparr>Point_x = 0, Point_y = 3\<rparr>)
   \<and> on_lattice (Piece_rotate False (PIECES ! 0))
   \<and> on_lattice (snd (snd (kickRotate initial_grid (PIECES ! 0) True)))"
proof -
  have m: "PIECES ! 0 \<in> set PIECES"
    and c: "centroid (PIECES ! 0) = \<lparr>Point_x = 1 / 2, Point_y = 3 / 2\<rparr>"
    and b: "\<lparr>Point_x = 0, Point_y = 3\<rparr> \<in> set (blocks (PIECES ! 0))"
    by (simp_all add: PIECES_eq)
  have r: "Point_rotate True (centroid (PIECES ! 0)) \<lparr>Point_x = 0, Point_y = 3\<rparr>
       = \<lparr>Point_x = - 1, Point_y = 1\<rparr>"
    by (simp add: c Point_rotate_def)
  note inv = catalog_on_lattice [where q = "PIECES ! 0"]
  from inv m have l: "on_lattice (PIECES ! 0)" by blast
  with inv b
  have "integral (Point_rotate True (centroid (PIECES ! 0)) \<lparr>Point_x = 0, Point_y = 3\<rparr>)"
    by blast
  moreover from inv l have "on_lattice (Piece_rotate False (PIECES ! 0))" by blast
  moreover from inv l have "on_lattice (snd (snd (kickRotate initial_grid (PIECES ! 0) True)))"
    by blast
  ultimately show ?thesis using l c r by simp
qed

section \<open>The step of the timer\<close>

lemma movePieceDown_locked:
  "currentPiece s = Some p \<Longrightarrow> moveDown (grid s) p = (Inr True, g', p') \<Longrightarrow>
     movePieceDown s = Some (Inr (), s\<lparr>grid := g', currentPiece := None\<rparr>)"
  by (simp add: movePieceDown_def)

lemma movePieceDown_falling:
  "currentPiece s = Some p \<Longrightarrow> moveDown (grid s) p = (Inr False, g', p') \<Longrightarrow>
     movePieceDown s =
       map_option (\<lambda>(r, g''). (r, s\<lparr>grid := g'', currentPiece := Some p'\<rparr>)) (clearLines g')"
  by (simp add: movePieceDown_def split: option.splits)

text \<open>
  C1 says that a tick on which the piece locks clears the completed lines and leaves
  no active piece. The code clears lines on the other branch. Here the O piece locks
  into the two gaps of the last row: after the tick no piece is active and row 19 is
  full and still in the grid; \<^verbatim>\<open>clearLines\<close>, had it run on that grid, would have left
  no full row.
\<close>

theorem movePieceDown_keeps_full_row:
  "map_option
     (\<lambda>(r, s). (r, currentPiece s, filter (\<lambda>i. every_nonzero (grid s ! i)) [0 ..< 20],
        map_option (\<lambda>(r', g'). filter (\<lambda>i. every_nonzero (g' ! i)) [0 ..< 20])
          (clearLines (grid s))))
     (movePieceDown game_locking) = Some (Inr (), None, [19], Some [])"
  by code_simp

text \<open>
  What the late clearing costs. From the session with the high stack, the first tick
  locks the O piece and completes rows 0 and 1, the second spawns the next piece, and
  the third throws: the piece cannot enter row 0, which is still full. Had the lines
  been cleared when the piece locked, the same two ticks would have let it fall.
\<close>

lemma late_clear_ends_game:
  "map_option
     (\<lambda>(r, s). (r, map_option position (currentPiece s),
                 filter (\<lambda>i. every_nonzero (grid s ! i)) [0 ..< 20]))
     (ticks 3 game_high)
   = Some (Inl TypeError, Some \<lparr>Point_x = 4, Point_y = - 2\<rparr>, [0, 1])"
  by code_simp

lemma clear_at_lock_continues:
  "(case ticks 1 game_high of
      Some (r, s) \<Rightarrow>
        (case clearLines (grid s) of
           Some (r', g') \<Rightarrow>
             map_option
               (\<lambda>(r, s). (r, map_option position (currentPiece s),
                           filter (\<lambda>i. every_nonzero (grid s ! i)) [0 ..< 20]))
               (ticks 2 (s\<lparr>grid := g'\<rparr>))
         | None \<Rightarrow> None)
    | None \<Rightarrow> None)
   = Some (Inr (), Some \<lparr>Point_x = 4, Point_y = - 1\<rparr>, [])"
  by code_simp

end
